theory Spec2Isabelle
  imports Main "HOL-Library.Word"
begin

section \<open>Data model of dataset.go\<close>

text \<open>
  Go's \<^verbatim>\<open>uint64\<close> is a 64-bit word, a Go \<^verbatim>\<open>string\<close> is a \<^typ>\<open>string\<close>, and a
  pointer field of a struct is an \<^typ>\<open>'a option\<close> (\<open>None\<close> is \<^verbatim>\<open>nil\<close>).
  Field names that occur in more than one struct carry the struct as a prefix.
\<close>

type_synonym uint64 = "64 word"

record propUint64 =
  u64_Value :: uint64

record propUint64WithSource =
  u64s_Source :: string
  u64s_Value :: uint64

record propString =
  str_Value :: string

record propStringWithSource =
  strs_Source :: string
  strs_Value :: string

text \<open>
  \<^verbatim>\<open>propClones.Value\<close> is a Go map from clone name to a presence marker. The model keeps
  it as an association list: the order of the list stands for the order in which one
  \<^verbatim>\<open>range\<close> over the map happens to visit the keys (Go leaves that order open), so a
  statement about every list is a statement about every iteration order.
\<close>

record propClones =
  clones_Value :: "(string \<times> bool) list"

record dmuObjsetStats =
  dds_CreationTxg :: uint64
  dds_Guid :: uint64
  dds_Inconsistent :: bool
  dds_IsSnapshot :: bool
  dds_NumClones :: uint64
  dds_Origin :: string
  dds_Type :: string

record dsProperties =
  prop_Available :: propUint64
  prop_Clones :: propClones
  prop_Compression :: propStringWithSource
  prop_CompressRatio :: propUint64
  prop_CreateTxg :: propUint64
  prop_Creation :: propUint64
  prop_DeferDestroy :: propUint64
  prop_Guid :: propUint64
  prop_LogicalReferenced :: propUint64
  prop_LogicalUsed :: propUint64
  prop_Mountpoint :: propStringWithSource
  prop_ObjsetID :: propUint64
  prop_Origin :: propString
  prop_Quota :: propUint64WithSource
  prop_RefCompressRatio :: propUint64
  prop_RefQuota :: propUint64WithSource
  prop_RefReservation :: propUint64WithSource
  prop_Referenced :: propUint64
  prop_Reservation :: propUint64WithSource
  prop_Type :: propUint64
  prop_Unique :: propUint64
  prop_Used :: propUint64
  prop_UsedByChildren :: propUint64
  prop_UsedByDataset :: propUint64
  prop_UsedByRefReservation :: propUint64
  prop_UsedBySnapshots :: propUint64
  prop_UserAccounting :: propUint64
  prop_UserRefs :: propUint64
  prop_Volsize :: propUint64
  prop_VolBlockSize :: propUint64
  prop_Written :: propUint64

record ds =
  ds_DMUObjsetStats :: "dmuObjsetStats option"
  ds_Name :: string
  ds_Properties :: "dsProperties option"

record Dataset =
  Name :: string
  Origin :: string
  Used :: uint64
  Avail :: uint64
  Mountpoint :: string
  Compression :: string
  Type :: string
  Written :: uint64
  Volsize :: uint64
  Usedbydataset :: uint64
  Logicalused :: uint64
  Quota :: uint64
  ds :: "ds option"

definition DatasetFilesystem :: string where
  "DatasetFilesystem = ''filesystem''"

definition DatasetSnapshot :: string where
  "DatasetSnapshot = ''snapshot''"

definition DatasetVolume :: string where
  "DatasetVolume = ''volume''"

subsection \<open>Errors and panics\<close>

text \<open>
  A Go \<^verbatim>\<open>error\<close> built by \<^verbatim>\<open>errors.New\<close> or \<^verbatim>\<open>fmt.Errorf\<close> carries nothing but its
  message; the native layer hands back errors of its own. A run-time panic unwinds
  through every caller here (nothing recovers), so it travels like an error.
\<close>

datatype panic =
    NilDereference
  | SliceBoundsOutOfRange nat nat
  | IndexOutOfRange nat nat
  | NilMapAssignment

datatype error =
    ErrorString string
  | Errno nat
  | Panic panic

section \<open>The native layer\<close>

text \<open>
  The functions \<^verbatim>\<open>list\<close>, \<^verbatim>\<open>create\<close>, \<^verbatim>\<open>rollback\<close>, \<^verbatim>\<open>snapshot\<close> and \<^verbatim>\<open>ioctl\<close>, the
  nv encoder, the method \<^verbatim>\<open>Dataset.Mount\<close> and the \<^verbatim>\<open>dmuType\<close> constants are called by
  the code under src/ and declared elsewhere, so they are parameters: a record of
  functions over a kernel state \<open>'w\<close>, each giving its result and the next kernel
  state. A value of Go's \<^verbatim>\<open>interface{}\<close> is its dynamic type and value.
\<close>

datatype iface =
    IString string
  | IUint64 uint64
  | IBool bool
  | IOther nat

type_synonym bytes = "8 word list"

record ('w, 'dt) native =
  dmuType :: "uint64 \<Rightarrow> 'dt"
  dmuTypes_zvol :: 'dt
  dmuZFS :: 'dt
  dmuZVOL :: 'dt
  zfs_list :: "string \<Rightarrow> (string \<rightharpoonup> bool) \<Rightarrow> bool \<Rightarrow> uint64 \<Rightarrow> 'w \<Rightarrow> (error + ds list) \<times> 'w"
  zfs_create :: "string \<Rightarrow> 'dt \<Rightarrow> (string \<rightharpoonup> iface) option \<Rightarrow> 'w \<Rightarrow> error option \<times> 'w"
  zfs_rollback :: "string \<Rightarrow> 'w \<Rightarrow> error option \<times> 'w"
  zfs_snapshot :: "string \<Rightarrow> string list \<Rightarrow> (string \<rightharpoonup> string) \<Rightarrow> 'w \<Rightarrow> error option \<times> 'w"
  nv_Encode :: "(string \<rightharpoonup> iface) \<Rightarrow> error + bytes"
  zfs_ioctl :: "string \<Rightarrow> bytes \<Rightarrow> 'w \<Rightarrow> error option \<times> 'w"
  ds_Mount :: "Dataset \<Rightarrow> bool \<Rightarrow> 'w \<Rightarrow> error option \<times> 'w"

text \<open>
  Every call into the native layer is logged with its arguments and with the error it
  returned (\<open>None\<close> when it succeeded). The program state is the kernel state, that log,
  and the Go maps that callers hold by reference (\<open>heap\<close>, from a map's address to its
  contents; a \<^verbatim>\<open>nil\<close> map has no address).
\<close>

datatype 'dt call =
    CallList string "string \<rightharpoonup> bool" bool uint64
  | CallCreate string 'dt "(string \<rightharpoonup> iface) option"
  | CallRollback string
  | CallSnapshot string "string list" "string \<rightharpoonup> string"
  | CallIoctl string bytes
  | CallMount string bool

record ('w, 'dt) state =
  world :: 'w
  trace :: "('dt call \<times> error option) list"
  heap :: "nat \<Rightarrow> (string \<rightharpoonup> iface)"

definition native_call ::
  "'dt call \<Rightarrow> ('w \<Rightarrow> 'r \<times> 'w) \<Rightarrow> ('r \<Rightarrow> error option) \<Rightarrow> ('w, 'dt) state \<Rightarrow> 'r \<times> ('w, 'dt) state" where
  "native_call c f err s =
     (case f (world s) of
        (r, w) \<Rightarrow> (r, s\<lparr>world := w, trace := trace s @ [(c, err r)]\<rparr>))"

definition failure :: "error + 'a \<Rightarrow> error option" where
  "failure r = (case r of Inl e \<Rightarrow> Some e | Inr _ \<Rightarrow> None)"

section \<open>dataset.go\<close>

definition dsToDataset :: "('w, 'dt) native \<Rightarrow> ds \<Rightarrow> error + Dataset" where
  "dsToDataset N inp =
     (case ds_DMUObjsetStats inp of
        None \<Rightarrow> Inl (Panic NilDereference)
      | Some stats \<Rightarrow>
     (case ds_Properties inp of
        None \<Rightarrow> Inl (Panic NilDereference)
      | Some props \<Rightarrow>
          (let dsType =
                 (if dds_IsSnapshot stats then DatasetSnapshot
                  else if dmuType N (u64_Value (prop_Type props)) = dmuTypes_zvol N
                  then DatasetVolume
                  else DatasetFilesystem);
               compression =
                 (if strs_Value (prop_Compression props) = []
                  then ''off'' else strs_Value (prop_Compression props));
               mountpoint =
                 (if strs_Value (prop_Mountpoint props) = [] \<and> dsType \<noteq> DatasetSnapshot
                  then ''/'' @ ds_Name inp else strs_Value (prop_Mountpoint props))
           in Inr \<lparr> Name = ds_Name inp,
                    Origin = str_Value (prop_Origin props),
                    Used = u64_Value (prop_Used props),
                    Avail = u64_Value (prop_Available props),
                    Mountpoint = mountpoint,
                    Compression = compression,
                    Type = dsType,
                    Written = u64_Value (prop_Available props),
                    Volsize = u64_Value (prop_Volsize props),
                    Usedbydataset = u64_Value (prop_UsedByDataset props),
                    Logicalused = u64_Value (prop_LogicalUsed props),
                    Quota = u64s_Value (prop_Quota props),
                    ds = Some inp \<rparr>)))"

text \<open>The loop of \<^verbatim>\<open>getDatasets\<close> that fills \<^verbatim>\<open>datasets[i]\<close> from \<^verbatim>\<open>dss[i]\<close>.\<close>

fun toDatasets :: "('w, 'dt) native \<Rightarrow> ds list \<Rightarrow> error + Dataset list" where
  "toDatasets N [] = Inr []"
| "toDatasets N (r # rs) =
     (case dsToDataset N r of
        Inl e \<Rightarrow> Inl e
      | Inr d \<Rightarrow> (case toDatasets N rs of Inl e \<Rightarrow> Inl e | Inr dsets \<Rightarrow> Inr (d # dsets)))"

definition getDatasets ::
  "('w, 'dt) native \<Rightarrow> string \<Rightarrow> string \<Rightarrow> bool \<Rightarrow> uint64 \<Rightarrow> ('w, 'dt) state
     \<Rightarrow> (error + Dataset list) \<times> ('w, 'dt) state" where
  "getDatasets N name dsType recurse depth s =
     (let types = [dsType \<mapsto> True] in
      case native_call (CallList name types recurse depth)
             (zfs_list N name types recurse depth) failure s of
        (Inl err, s1) \<Rightarrow> (Inl err, s1)
      | (Inr dss, s1) \<Rightarrow> (toDatasets N dss, s1))"

text \<open>
  \<^verbatim>\<open>fmt.Errorf("expected 1 dataset, got %s", len(datasets))\<close>: the verb \<^verbatim>\<open>%s\<close> meets an
  \<^verbatim>\<open>int\<close>, which \<^verbatim>\<open>fmt\<close> renders as \<^verbatim>\<open>%!s(int=N)\<close> with \<open>N\<close> in decimal.
\<close>

function itoa :: "nat \<Rightarrow> string" where
  "itoa n = (if n < 10 then [''0123456789'' ! n] else itoa (n div 10) @ [''0123456789'' ! (n mod 10)])"
  by pat_completeness auto
termination
  by (relation "measure id") auto

declare itoa.simps [simp del]

definition GetDataset ::
  "('w, 'dt) native \<Rightarrow> string \<Rightarrow> ('w, 'dt) state \<Rightarrow> (error + Dataset) \<times> ('w, 'dt) state" where
  "GetDataset N name s =
     (case getDatasets N name ''all'' False 0 s of
        (Inl err, s1) \<Rightarrow> (Inl err, s1)
      | (Inr datasets, s1) \<Rightarrow>
          (case datasets of
             [d] \<Rightarrow> (Inr d, s1)
           | _ \<Rightarrow> (Inl (ErrorString (''expected 1 dataset, got %!s(int='' @ itoa (length datasets) @ '')'')), s1)))"

definition createDataset ::
  "('w, 'dt) native \<Rightarrow> string \<Rightarrow> 'dt \<Rightarrow> nat option \<Rightarrow> ('w, 'dt) state
     \<Rightarrow> (error + Dataset) \<times> ('w, 'dt) state" where
  "createDataset N name createType properties s =
     (let props = map_option (heap s) properties in
      case native_call (CallCreate name (dmuZFS N) props)
             (zfs_create N name (dmuZFS N) props) id s of
        (Some err, s1) \<Rightarrow> (Inl err, s1)
      | (None, s1) \<Rightarrow> GetDataset N name s1)"

definition CreateFilesystem ::
  "('w, 'dt) native \<Rightarrow> string \<Rightarrow> nat option \<Rightarrow> ('w, 'dt) state
     \<Rightarrow> (error + Dataset) \<times> ('w, 'dt) state" where
  "CreateFilesystem N name properties s = createDataset N name (dmuZFS N) properties s"

text \<open>
  \<^verbatim>\<open>properties["volsize"] = size\<close> writes through the caller's reference; on a \<^verbatim>\<open>nil\<close>
  map the assignment panics before anything else happens.
\<close>

definition CreateVolume ::
  "('w, 'dt) native \<Rightarrow> string \<Rightarrow> uint64 \<Rightarrow> nat option \<Rightarrow> ('w, 'dt) state
     \<Rightarrow> (error + Dataset) \<times> ('w, 'dt) state" where
  "CreateVolume N name sz properties s =
     (case properties of
        None \<Rightarrow> (Inl (Panic NilMapAssignment), s)
      | Some a \<Rightarrow>
          createDataset N name (dmuZVOL N) properties
            (s\<lparr>heap := (heap s)(a := (heap s a)(''volsize'' \<mapsto> IUint64 sz))\<rparr>))"

text \<open>\<^verbatim>\<open>datasets[1:]\<close> panics on an empty slice (low bound 1 above the length 0).\<close>

definition Children ::
  "('w, 'dt) native \<Rightarrow> Dataset \<Rightarrow> uint64 \<Rightarrow> ('w, 'dt) state
     \<Rightarrow> (error + Dataset list) \<times> ('w, 'dt) state" where
  "Children N d depth s =
     (case getDatasets N (Name d) ''all'' True depth s of
        (Inl err, s1) \<Rightarrow> (Inl err, s1)
      | (Inr datasets, s1) \<Rightarrow>
          (case datasets of
             [] \<Rightarrow> (Inl (Panic (SliceBoundsOutOfRange 1 0)), s1)
           | _ # rest \<Rightarrow> (Inr rest, s1)))"

subsection \<open>zfs/destroy.go\<close>

text \<open>
  \<^verbatim>\<open>destroy\<close> encodes the command map and hands the bytes to \<^verbatim>\<open>ioctl\<close> for the named
  dataset; when the encoder fails no native call is made.
\<close>

definition destroy ::
  "('w, 'dt) native \<Rightarrow> string \<Rightarrow> bool \<Rightarrow> ('w, 'dt) state \<Rightarrow> error option \<times> ('w, 'dt) state" where
  "destroy N name deferFlag s =
     (let m = [''cmd'' \<mapsto> IString ''zfs_destroy'',
               ''version'' \<mapsto> IUint64 0,
               ''defer'' \<mapsto> IBool deferFlag] in
      case nv_Encode N m of
        Inl err \<Rightarrow> (Some err, s)
      | Inr encoded \<Rightarrow> native_call (CallIoctl name encoded) (zfs_ioctl N name encoded) id s)"

subsection \<open>Dataset.Destroy\<close>

record DestroyOptions =
  Recursive :: bool
  RecursiveClones :: bool
  ForceUnmount :: bool
  Defer :: bool

text \<open>
  A step of \<^verbatim>\<open>Destroy\<close> either does not return (\<open>None\<close>), or returns an error, or
  returns \<^verbatim>\<open>nil\<close>; \<open>andThen\<close> is Go's \<^verbatim>\<open>if err != nil { return err }\<close> between two
  steps, and \<open>forEach\<close> is a \<^verbatim>\<open>for ... range\<close> loop whose body returns on an error.
\<close>

type_synonym ('w, 'dt) step = "(error option \<times> ('w, 'dt) state) option"

definition andThen ::
  "('w, 'dt) step \<Rightarrow> (('w, 'dt) state \<Rightarrow> ('w, 'dt) step) \<Rightarrow> ('w, 'dt) step" where
  "andThen m f =
     (case m of
        None \<Rightarrow> None
      | Some (Some err, s) \<Rightarrow> Some (Some err, s)
      | Some (None, s) \<Rightarrow> f s)"

fun forEach ::
  "('a \<Rightarrow> ('w, 'dt) state \<Rightarrow> ('w, 'dt) step) \<Rightarrow> 'a list \<Rightarrow> ('w, 'dt) state \<Rightarrow> ('w, 'dt) step" where
  "forEach body [] s = Some (None, s)"
| "forEach body (x # xs) s = andThen (body x s) (forEach body xs)"

text \<open>The first loop: \<^verbatim>\<open>d.Children(1)\<close>, then \<^verbatim>\<open>child.Destroy(opts)\<close> for each child.\<close>

definition destroyChildren ::
  "(Dataset \<Rightarrow> ('w, 'dt) state \<Rightarrow> ('w, 'dt) step) \<Rightarrow> ('w, 'dt) native \<Rightarrow> Dataset
     \<Rightarrow> ('w, 'dt) state \<Rightarrow> ('w, 'dt) step" where
  "destroyChildren self N d s =
     (case Children N d 1 s of
        (Inl err, s1) \<Rightarrow> Some (Some err, s1)
      | (Inr children, s1) \<Rightarrow> forEach self children s1)"

text \<open>
  The second loop ranges over \<^verbatim>\<open>d.ds.Properties.Clones.Value\<close>; both pointers are
  dereferenced when the loop starts.
\<close>

definition destroyClone ::
  "(Dataset \<Rightarrow> ('w, 'dt) state \<Rightarrow> ('w, 'dt) step) \<Rightarrow> ('w, 'dt) native \<Rightarrow> string
     \<Rightarrow> ('w, 'dt) state \<Rightarrow> ('w, 'dt) step" where
  "destroyClone self N cloneName s =
     (case GetDataset N cloneName s of
        (Inl err, s1) \<Rightarrow> Some (Some err, s1)
      | (Inr clone, s1) \<Rightarrow> self clone s1)"

definition destroyClones ::
  "(Dataset \<Rightarrow> ('w, 'dt) state \<Rightarrow> ('w, 'dt) step) \<Rightarrow> ('w, 'dt) native \<Rightarrow> Dataset
     \<Rightarrow> ('w, 'dt) state \<Rightarrow> ('w, 'dt) step" where
  "destroyClones self N d s =
     (case ds d of
        None \<Rightarrow> Some (Some (Panic NilDereference), s)
      | Some raw \<Rightarrow>
     (case ds_Properties raw of
        None \<Rightarrow> Some (Some (Panic NilDereference), s)
      | Some props \<Rightarrow>
          forEach (destroyClone self N) (map fst (clones_Value (prop_Clones props))) s))"

text \<open>
  \<^verbatim>\<open>Destroy\<close> calls itself on data that the kernel returns, so nothing bounds the depth
  of the recursion: the model counts it down, and \<open>None\<close> says that the given depth did
  not suffice.
\<close>

primrec Destroy ::
  "nat \<Rightarrow> ('w, 'dt) native \<Rightarrow> DestroyOptions \<Rightarrow> Dataset \<Rightarrow> ('w, 'dt) state \<Rightarrow> ('w, 'dt) step" where
  "Destroy 0 N opts d s = None"
| "Destroy (Suc n) N opts d s =
     andThen (if Recursive opts then destroyChildren (Destroy n N opts) N d s else Some (None, s))
       (\<lambda>s1. andThen (if RecursiveClones opts then destroyClones (Destroy n N opts) N d s1
                       else Some (None, s1))
          (\<lambda>s2. Some (destroy N (Name d) (Defer opts) s2)))"

subsection \<open>Rollback and Snapshot\<close>

definition Rollback ::
  "('w, 'dt) native \<Rightarrow> Dataset \<Rightarrow> bool \<Rightarrow> ('w, 'dt) state \<Rightarrow> error option \<times> ('w, 'dt) state" where
  "Rollback N d destroyMoreRecent s =
     native_call (CallRollback (Name d)) (zfs_rollback N (Name d)) id s"

text \<open>\<^verbatim>\<open>strings.Split(s, "/")\<close>, for the one-byte separator the code uses.\<close>

fun Split :: "string \<Rightarrow> char \<Rightarrow> string list" where
  "Split [] sep = [[]]"
| "Split (c # cs) sep =
     (if c = sep then [] # Split cs sep
      else (case Split cs sep of
              [] \<Rightarrow> [[c]]
            | x # xs \<Rightarrow> (c # x) # xs))"

definition Snapshot ::
  "('w, 'dt) native \<Rightarrow> Dataset \<Rightarrow> string \<Rightarrow> bool \<Rightarrow> ('w, 'dt) state
     \<Rightarrow> error option \<times> ('w, 'dt) state" where
  "Snapshot N d name recursive s =
     (case Split (Name d) (CHR ''/'') of
        [] \<Rightarrow> (Some (Panic (IndexOutOfRange 0 0)), s)
      | zpool # _ \<Rightarrow>
          (let snapName = Name d @ ''@'' @ name in
           native_call (CallSnapshot zpool [snapName] Map.empty)
             (zfs_snapshot N zpool [snapName] Map.empty) id s))"

section \<open>providers/zfs/mount.go\<close>

record MountArgs =
  MountArgs_Name :: string
  MountArgs_Overlay :: bool

text \<open>
  A request is what \<^verbatim>\<open>req.UnmarshalArgs(&args)\<close> makes of it: an error, or the decoded
  arguments. The handler's first two results are always \<^verbatim>\<open>nil\<close>; the model keeps the
  third.
\<close>

datatype Request = Request (UnmarshalArgs: "error + MountArgs")

definition ZFS_Mount ::
  "('w, 'dt) native \<Rightarrow> Request \<Rightarrow> ('w, 'dt) state \<Rightarrow> error option \<times> ('w, 'dt) state" where
  "ZFS_Mount N req s =
     (case UnmarshalArgs req of
        Inl err \<Rightarrow> (Some err, s)
      | Inr args \<Rightarrow>
          if MountArgs_Name args = [] then (Some (ErrorString ''missing arg: name''), s)
          else (case GetDataset N (MountArgs_Name args) s of
                  (Inl err, s1) \<Rightarrow> (Some err, s1)
                | (Inr dset, s1) \<Rightarrow>
                    native_call (CallMount (Name dset) (MountArgs_Overlay args))
                      (ds_Mount N dset (MountArgs_Overlay args)) id s1))"

section \<open>The specification's reading of \<^verbatim>\<open>get\<close>\<close>

text \<open>
  The specification gives \<^verbatim>\<open>get\<close> three outcomes of its own: the dataset, \<open>NotFound\<close>
  for an empty listing and \<open>AmbiguousResult\<close> for a listing of two or more records.
  \<open>get_spec\<close> follows those words, not the code; \<open>outcome\<close> reads a result of the Go
  function in the same terms (the code builds no error value of either kind, so an
  error it returns is kept as it is).
\<close>

datatype get_outcome = Returned Dataset | NotFound | AmbiguousResult | Failed error

definition get_spec :: "error + Dataset list \<Rightarrow> get_outcome" where
  "get_spec listing =
     (case listing of
        Inl e \<Rightarrow> Failed e
      | Inr [] \<Rightarrow> NotFound
      | Inr [d] \<Rightarrow> Returned d
      | Inr (d # d' # rest) \<Rightarrow> AmbiguousResult)"

definition outcome :: "error + Dataset \<Rightarrow> get_outcome" where
  "outcome r = (case r of Inr d \<Rightarrow> Returned d | Inl e \<Rightarrow> Failed e)"

section \<open>Call logs\<close>

text \<open>
  \<open>benign\<close> marks the calls that list or destroy. A log is \<open>clean\<close> when every call in
  it succeeded. \<open>fail_fast r t\<close> relates a result to the log of the calls made for it:
  on success every call succeeded; on an error every call but the last succeeded, and
  the last one either succeeded too (the error arose outside the native layer) or
  failed with the very error returned.
\<close>

fun benign :: "'dt call \<Rightarrow> bool" where
  "benign (CallList name types recurse depth) = True"
| "benign (CallIoctl name request) = True"
| "benign c = False"

definition clean :: "('dt call \<times> error option) list \<Rightarrow> bool" where
  "clean t = list_all (\<lambda>entry. snd entry = None) t"

definition fail_fast :: "error option \<Rightarrow> ('dt call \<times> error option) list \<Rightarrow> bool" where
  "fail_fast r t =
     (case r of
        None \<Rightarrow> clean t
      | Some err \<Rightarrow> clean (butlast t) \<and> (t = [] \<or> snd (last t) = None \<or> snd (last t) = Some err))"

definition did ::
  "('w, 'dt) state \<Rightarrow> ('dt call \<times> error option) list \<Rightarrow> error option \<Rightarrow> ('w, 'dt) state \<Rightarrow> bool" where
  "did s t r s' = (trace s' = trace s @ t \<and> fail_fast r t \<and> list_all (\<lambda>entry. benign (fst entry)) t)"

section \<open>A small kernel for worked examples\<close>

text \<open>
  The zero values of the Go structs, and a native layer over a kernel state that is a
  list of existing dataset names and a list of names whose destruction fails as busy.
  Listing a name gives its record, followed under \<^verbatim>\<open>recurse\<close> by the records one path
  segment below it; the record of \<^verbatim>\<open>pool/a\<close> names \<^verbatim>\<open>pool/c\<close> as its clone.
\<close>

definition zeroU64 :: propUint64 where "zeroU64 = \<lparr>u64_Value = 0\<rparr>"
definition zeroU64S :: propUint64WithSource where "zeroU64S = \<lparr>u64s_Source = [], u64s_Value = 0\<rparr>"
definition zeroStrS :: propStringWithSource where "zeroStrS = \<lparr>strs_Source = [], strs_Value = []\<rparr>"

definition zeroProps :: dsProperties where
  "zeroProps = \<lparr>
     prop_Available = zeroU64, prop_Clones = \<lparr>clones_Value = []\<rparr>,
     prop_Compression = zeroStrS, prop_CompressRatio = zeroU64, prop_CreateTxg = zeroU64,
     prop_Creation = zeroU64, prop_DeferDestroy = zeroU64, prop_Guid = zeroU64,
     prop_LogicalReferenced = zeroU64, prop_LogicalUsed = zeroU64, prop_Mountpoint = zeroStrS,
     prop_ObjsetID = zeroU64, prop_Origin = \<lparr>str_Value = []\<rparr>, prop_Quota = zeroU64S,
     prop_RefCompressRatio = zeroU64, prop_RefQuota = zeroU64S, prop_RefReservation = zeroU64S,
     prop_Referenced = zeroU64, prop_Reservation = zeroU64S, prop_Type = zeroU64,
     prop_Unique = zeroU64, prop_Used = zeroU64, prop_UsedByChildren = zeroU64,
     prop_UsedByDataset = zeroU64, prop_UsedByRefReservation = zeroU64,
     prop_UsedBySnapshots = zeroU64, prop_UserAccounting = zeroU64, prop_UserRefs = zeroU64,
     prop_Volsize = zeroU64, prop_VolBlockSize = zeroU64, prop_Written = zeroU64 \<rparr>"

definition zeroStats :: dmuObjsetStats where
  "zeroStats = \<lparr> dds_CreationTxg = 0, dds_Guid = 0, dds_Inconsistent = False,
     dds_IsSnapshot = False, dds_NumClones = 0, dds_Origin = [], dds_Type = [] \<rparr>"

definition zeroDataset :: Dataset where
  "zeroDataset = \<lparr> Name = [], Origin = [], Used = 0, Avail = 0, Mountpoint = [],
     Compression = [], Type = [], Written = 0, Volsize = 0, Usedbydataset = 0,
     Logicalused = 0, Quota = 0, ds = None \<rparr>"

definition demo_raw :: "string \<Rightarrow> ds" where
  "demo_raw name =
     \<lparr> ds_DMUObjsetStats = Some zeroStats, ds_Name = name,
       ds_Properties = Some (zeroProps\<lparr>prop_Clones :=
         \<lparr>clones_Value = (if name = ''pool/a'' then [(''pool/c'', True)] else [])\<rparr>\<rparr>) \<rparr>"

type_synonym demo_world = "string list \<times> string list"

definition demo_list ::
  "string \<Rightarrow> (string \<rightharpoonup> bool) \<Rightarrow> bool \<Rightarrow> uint64 \<Rightarrow> demo_world \<Rightarrow> (error + ds list) \<times> demo_world" where
  "demo_list name types recurse depth w =
     (if name \<in> set (fst w)
      then (Inr (map demo_raw (name # (if recurse
              then filter (\<lambda>c. butlast (Split c (CHR ''/'')) = Split name (CHR ''/'')) (fst w)
              else []))), w)
      else (Inl (Errno 2), w))"

definition demo_ioctl :: "string \<Rightarrow> bytes \<Rightarrow> demo_world \<Rightarrow> error option \<times> demo_world" where
  "demo_ioctl name request w =
     (if name \<in> set (snd w) then (Some (Errno 16), w)
      else (None, (removeAll name (fst w), snd w)))"

definition demo :: "(demo_world, nat) native" where
  "demo = \<lparr> dmuType = unat, dmuTypes_zvol = 3, dmuZFS = 2, dmuZVOL = 3,
     zfs_list = demo_list,
     zfs_create = (\<lambda>name t props w. (None, (name # fst w, snd w))),
     zfs_rollback = (\<lambda>name w. (None, w)),
     zfs_snapshot = (\<lambda>zpool names props w. (None, w)),
     nv_Encode = (\<lambda>m. Inr [if m ''defer'' = Some (IBool True) then 1 else 0]),
     zfs_ioctl = demo_ioctl,
     ds_Mount = (\<lambda>d overlay w. (None, w)) \<rparr>"

definition demo_state :: "string list \<Rightarrow> string list \<Rightarrow> (demo_world, nat) state" where
  "demo_state alive busy = \<lparr> world = (alive, busy), trace = [], heap = (\<lambda>a. Map.empty) \<rparr>"

definition demo_dataset :: "string \<Rightarrow> Dataset" where
  "demo_dataset name = (case dsToDataset demo (demo_raw name) of Inr d \<Rightarrow> d | Inl e \<Rightarrow> zeroDataset)"

definition demo_opts :: DestroyOptions where
  "demo_opts = \<lparr> Recursive = True, RecursiveClones = True, ForceUnmount = False, Defer = False \<rparr>"

definition fixed_listing :: "ds list \<Rightarrow> (demo_world, nat) native" where
  "fixed_listing recs = demo\<lparr>zfs_list := (\<lambda>name types recurse depth w. (Inr recs, w))\<rparr>"

definition mounted_snapshot :: ds where
  "mounted_snapshot =
     \<lparr> ds_DMUObjsetStats = Some (zeroStats\<lparr>dds_IsSnapshot := True\<rparr>), ds_Name = ''pool/fs@monday'',
       ds_Properties = Some (zeroProps\<lparr>prop_Mountpoint := \<lparr>strs_Source = [], strs_Value = ''/mnt''\<rparr>\<rparr>) \<rparr>"

definition accounting_raw :: ds where
  "accounting_raw =
     \<lparr> ds_DMUObjsetStats = Some zeroStats, ds_Name = ''pool/fs'',
       ds_Properties = Some (zeroProps\<lparr>
         prop_Used := \<lparr>u64_Value = 1\<rparr>, prop_Available := \<lparr>u64_Value = 2\<rparr>,
         prop_Written := \<lparr>u64_Value = 3\<rparr>, prop_LogicalUsed := \<lparr>u64_Value = 4\<rparr>,
         prop_Volsize := \<lparr>u64_Value = 5\<rparr>, prop_UsedByDataset := \<lparr>u64_Value = 6\<rparr>\<rparr>) \<rparr>"

section \<open>Facts about the model\<close>

lemmas example_defs =
  demo_def demo_list_def demo_ioctl_def demo_state_def demo_dataset_def demo_opts_def
  demo_raw_def zeroProps_def zeroStats_def zeroU64_def zeroU64S_def zeroStrS_def zeroDataset_def
  fixed_listing_def mounted_snapshot_def accounting_raw_def
  dsToDataset_def DatasetFilesystem_def DatasetSnapshot_def DatasetVolume_def
  getDatasets_def GetDataset_def Children_def native_call_def failure_def destroy_def
  destroyChildren_def destroyClones_def destroyClone_def andThen_def Let_def

lemma Split_first: "\<exists>rest. Split s c = takeWhile (\<lambda>x. x \<noteq> c) s # rest"
  by (induction s) (auto split: list.splits)

lemma itoa_digit: "n < 10 \<Longrightarrow> itoa n = [''0123456789'' ! n]"
  by (simp add: itoa.simps)

lemma native_call_heap: "heap (snd (native_call c f err s)) = heap s"
  by (simp add: native_call_def split: prod.splits)

lemma native_call_trace:
  "trace (snd (native_call c f err s)) = trace s @ [(c, err (fst (f (world s))))]"
  by (simp add: native_call_def split: prod.splits)

lemma getDatasets_heap: "heap (snd (getDatasets N name t r dp s)) = heap s"
  using native_call_heap [of "CallList name [t \<mapsto> True] r dp" "zfs_list N name [t \<mapsto> True] r dp" failure s]
  by (auto simp: getDatasets_def Let_def split: prod.splits sum.splits)

lemma getDatasets_trace:
  "\<exists>e. trace (snd (getDatasets N name t r dp s)) = trace s @ [(CallList name [t \<mapsto> True] r dp, e)]"
  using native_call_trace [of "CallList name [t \<mapsto> True] r dp" "zfs_list N name [t \<mapsto> True] r dp" failure s]
  by (auto simp: getDatasets_def Let_def split: prod.splits sum.splits)

lemma GetDataset_heap: "heap (snd (GetDataset N name s)) = heap s"
  using getDatasets_heap [of N name "''all''" False 0 s]
  by (auto simp: GetDataset_def split: prod.splits sum.splits list.splits)

lemma GetDataset_trace:
  "\<exists>e. trace (snd (GetDataset N name s)) = trace s @ [(CallList name [''all'' \<mapsto> True] False 0, e)]"
  using getDatasets_trace [of N name "''all''" False 0 s]
  by (auto simp: GetDataset_def split: prod.splits sum.splits list.splits)

lemma createDataset_heap: "heap (snd (createDataset N name t p s)) = heap s"
proof (cases "native_call (CallCreate name (dmuZFS N) (map_option (heap s) p))
                (zfs_create N name (dmuZFS N) (map_option (heap s) p)) id s")
  case (Pair r s1)
  with native_call_heap [of "CallCreate name (dmuZFS N) (map_option (heap s) p)"
         "zfs_create N name (dmuZFS N) (map_option (heap s) p)" id s]
  have "heap s1 = heap s" by simp
  with Pair GetDataset_heap [of N name s1] show ?thesis
    by (auto simp: createDataset_def Let_def split: option.splits)
qed

lemma createDataset_trace:
  "\<exists>e t. trace (snd (createDataset N name ct p s)) =
     trace s @ (CallCreate name (dmuZFS N) (map_option (heap s) p), e) # t"
proof (cases "native_call (CallCreate name (dmuZFS N) (map_option (heap s) p))
                (zfs_create N name (dmuZFS N) (map_option (heap s) p)) id s")
  case (Pair r s1)
  with native_call_trace [of "CallCreate name (dmuZFS N) (map_option (heap s) p)"
         "zfs_create N name (dmuZFS N) (map_option (heap s) p)" id s]
  have "\<exists>e. trace s1 = trace s @ [(CallCreate name (dmuZFS N) (map_option (heap s) p), e)]"
    by simp
  with Pair GetDataset_trace [of N name s1] show ?thesis
    by (auto simp: createDataset_def Let_def split: option.splits)
qed

section \<open>Snapshot, Rollback and CreateVolume: what reaches the native layer\<close>

text \<open>
  C2. \<^verbatim>\<open>Snapshot(name, recursive)\<close> makes one native call: \<^verbatim>\<open>snapshot\<close> with the first
  path segment of the dataset's name as the pool, the one snapshot name
  \<^verbatim>\<open><dataset name>@<name>\<close>, and an empty property map. The right-hand side does not
  mention \<open>recursive\<close>: the flag reaches no native call, so \<^verbatim>\<open>Snapshot("weekly", true)\<close>
  and \<^verbatim>\<open>Snapshot("weekly", false)\<close> on \<^verbatim>\<open>tank/data\<close> do the same thing.
\<close>

theorem Snapshot_drops_recursive:
  "Snapshot N d name recursive s =
     native_call
       (CallSnapshot (takeWhile (\<lambda>c. c \<noteq> CHR ''/'') (Name d)) [Name d @ ''@'' @ name] Map.empty)
       (zfs_snapshot N (takeWhile (\<lambda>c. c \<noteq> CHR ''/'') (Name d)) [Name d @ ''@'' @ name] Map.empty)
       id s"
  using Split_first [of "Name d" "CHR ''/''"] by (auto simp: Snapshot_def Let_def)

text \<open>
  C3. \<^verbatim>\<open>Rollback(destroyMoreRecent)\<close> calls the native \<^verbatim>\<open>rollback\<close> with the dataset's
  name alone; the call, its result and the state after it are the same for \<open>True\<close> and
  for \<open>False\<close>.
\<close>

theorem Rollback_drops_destroyMoreRecent:
  "Rollback N d True s = Rollback N d False s \<and>
   trace (snd (Rollback N d destroyMoreRecent s)) =
     trace s @ [(CallRollback (Name d), fst (zfs_rollback N (Name d) (world s)))]"
  by (simp add: Rollback_def native_call_trace)

text \<open>
  C4. The first native call of \<^verbatim>\<open>CreateVolume(name, size, properties)\<close> on a non-nil map
  is \<^verbatim>\<open>create\<close> with the caller's properties extended by \<^verbatim>\<open>volsize = size\<close>, and with
  the type \<^verbatim>\<open>dmuZFS\<close>: \<^verbatim>\<open>createDataset\<close> receives \<^verbatim>\<open>dmuZVOL\<close> and passes the constant
  \<^verbatim>\<open>dmuZFS\<close> on instead.
\<close>

theorem CreateVolume_creates_with_dmuZFS:
  "\<exists>e t. trace (snd (CreateVolume N name sz (Some a) s)) =
     trace s @ (CallCreate name (dmuZFS N) (Some ((heap s a)(''volsize'' \<mapsto> IUint64 sz))), e) # t"
  using createDataset_trace [of N name "dmuZVOL N" "Some a"
          "s\<lparr>heap := (heap s)(a := (heap s a)(''volsize'' \<mapsto> IUint64 sz))\<rparr>"]
  by (simp add: CreateVolume_def)

text \<open>
  C10. \<^verbatim>\<open>CreateVolume\<close> writes through the caller's reference: whatever the call
  returns, afterwards the caller's map is its old contents with \<^verbatim>\<open>volsize\<close> set to
  \<^verbatim>\<open>size\<close> (an entry already there is replaced, every other key is as before) and every
  other map is untouched. On a \<^verbatim>\<open>nil\<close> map the call panics and changes nothing. (The
  native \<^verbatim>\<open>create\<close> is given the contents of the map; the model takes it to read them
  only.)
\<close>

theorem CreateVolume_mutates_properties:
  "CreateVolume N name sz None s = (Inl (Panic NilMapAssignment), s) \<and>
   heap (snd (CreateVolume N name sz (Some a) s)) =
     (heap s)(a := (heap s a)(''volsize'' \<mapsto> IUint64 sz))"
  by (simp add: CreateVolume_def createDataset_heap)

section \<open>GetDataset\<close>

text \<open>
  C5, as the code has it. \<^verbatim>\<open>GetDataset(name)\<close> returns a dataset exactly when the
  listing \<^verbatim>\<open>getDatasets(name, "all", false, 0)\<close> yields exactly one dataset, and then it
  returns that one. A listing of any other length, empty or longer, fails with one and
  the same kind of error, the message \<^verbatim>\<open>expected 1 dataset, got ...\<close> carrying the
  length; an error of the listing is passed on. No further call is made.
\<close>

theorem GetDataset_exactly_one:
  "(fst (GetDataset N name s) = Inr d \<longleftrightarrow> fst (getDatasets N name ''all'' False 0 s) = Inr [d]) \<and>
   (fst (getDatasets N name ''all'' False 0 s) = Inr dsets \<and> length dsets \<noteq> 1 \<longrightarrow>
      fst (GetDataset N name s) =
        Inl (ErrorString (''expected 1 dataset, got %!s(int='' @ itoa (length dsets) @ '')''))) \<and>
   (fst (getDatasets N name ''all'' False 0 s) = Inl e \<longrightarrow> fst (GetDataset N name s) = Inl e) \<and>
   snd (GetDataset N name s) = snd (getDatasets N name ''all'' False 0 s)"
  by (cases "getDatasets N name ''all'' False 0 s")
     (auto simp: GetDataset_def split: sum.splits list.splits)

theorem GetDataset_exactly_one_witness:
  "fst (getDatasets (fixed_listing [demo_raw ''pool/fs'', demo_raw ''pool/fs'']) ''pool/fs'' ''all'' False 0
         (demo_state [] []))
     = Inr [demo_dataset ''pool/fs'', demo_dataset ''pool/fs''] \<and>
   length [demo_dataset ''pool/fs'', demo_dataset ''pool/fs''] \<noteq> 1 \<and>
   fst (GetDataset (fixed_listing [demo_raw ''pool/fs'', demo_raw ''pool/fs'']) ''pool/fs'' (demo_state [] []))
     = Inl (ErrorString ''expected 1 dataset, got %!s(int=2)'')"
proof -
  have h: "fst (getDatasets (fixed_listing [demo_raw ''pool/fs'', demo_raw ''pool/fs'']) ''pool/fs'' ''all''
                 False 0 (demo_state [] []))
             = Inr [demo_dataset ''pool/fs'', demo_dataset ''pool/fs'']"
    by (simp add: example_defs)
  have l: "length [demo_dataset ''pool/fs'', demo_dataset ''pool/fs''] \<noteq> 1" by simp
  show ?thesis
    using GetDataset_exactly_one
            [of "fixed_listing [demo_raw ''pool/fs'', demo_raw ''pool/fs'']" "''pool/fs''"
                "demo_state [] []" "demo_dataset ''pool/fs''"
                "[demo_dataset ''pool/fs'', demo_dataset ''pool/fs'']"]
          h l
    by (simp add: itoa_digit)
qed

text \<open>
  C5 as stated fails: on an empty listing the specification's outcome is \<open>NotFound\<close>
  and on a listing of two it is \<open>AmbiguousResult\<close>, while the code returns the same
  formatted-string error for both, differing in the count alone.
\<close>

theorem GetDataset_error_kinds_counterexample:
  "fst (GetDataset (fixed_listing []) ''pool/fs'' (demo_state [] []))
     = Inl (ErrorString ''expected 1 dataset, got %!s(int=0)'') \<and>
   get_spec (fst (getDatasets (fixed_listing []) ''pool/fs'' ''all'' False 0 (demo_state [] [])))
     = NotFound \<and>
   fst (GetDataset (fixed_listing [demo_raw ''pool/fs'', demo_raw ''pool/fs'']) ''pool/fs'' (demo_state [] []))
     = Inl (ErrorString ''expected 1 dataset, got %!s(int=2)'') \<and>
   get_spec (fst (getDatasets (fixed_listing [demo_raw ''pool/fs'', demo_raw ''pool/fs'']) ''pool/fs''
                    ''all'' False 0 (demo_state [] [])))
     = AmbiguousResult \<and>
   outcome (fst (GetDataset (fixed_listing []) ''pool/fs'' (demo_state [] [])))
     \<noteq> get_spec (fst (getDatasets (fixed_listing []) ''pool/fs'' ''all'' False 0 (demo_state [] [])))"
  by (simp add: example_defs get_spec_def outcome_def itoa_digit)

section \<open>dsToDataset\<close>

text \<open>
  C6, as the code has it. A record whose two pointers are set is normalised; the type
  is \<^verbatim>\<open>snapshot\<close> exactly when the record's is-snapshot flag is set; the mountpoint is
  \<^verbatim>\<open>/\<close> followed by the name when the native mountpoint is empty and the type is not
  \<^verbatim>\<open>snapshot\<close>, and the native mountpoint unchanged in every other case. So a snapshot
  keeps its native mountpoint: empty when that is empty, and not otherwise.
\<close>

theorem dsToDataset_mountpoint:
  assumes "ds_DMUObjsetStats inp = Some stats" and "ds_Properties inp = Some props"
  shows "\<exists>d. dsToDataset N inp = Inr d \<and>
           (Type d = DatasetSnapshot \<longleftrightarrow> dds_IsSnapshot stats) \<and>
           Mountpoint d =
             (if strs_Value (prop_Mountpoint props) = [] \<and> Type d \<noteq> DatasetSnapshot
              then ''/'' @ ds_Name inp
              else strs_Value (prop_Mountpoint props))"
  using assms
  by (simp add: dsToDataset_def Let_def DatasetSnapshot_def DatasetVolume_def DatasetFilesystem_def)

theorem dsToDataset_mountpoint_witness:
  "ds_DMUObjsetStats (demo_raw ''pool/fs'') = Some zeroStats \<and>
   (\<exists>p. ds_Properties (demo_raw ''pool/fs'') = Some p \<and> strs_Value (prop_Mountpoint p) = []) \<and>
   (\<exists>d. dsToDataset demo (demo_raw ''pool/fs'') = Inr d \<and>
         Type d = ''filesystem'' \<and> Mountpoint d = ''/pool/fs'')"
proof -
  have h1: "ds_DMUObjsetStats (demo_raw ''pool/fs'') = Some zeroStats"
    by (simp add: demo_raw_def)
  have h2: "ds_Properties (demo_raw ''pool/fs'')
              = Some (zeroProps\<lparr>prop_Clones := \<lparr>clones_Value = []\<rparr>\<rparr>)"
    by (simp add: demo_raw_def)
  show ?thesis
    using dsToDataset_mountpoint [OF h1 h2, of demo] h1 h2
    by (auto simp: example_defs)
qed

text \<open>
  C6 as stated fails for a snapshot whose native mountpoint is set: the record
  \<^verbatim>\<open>pool/fs@monday\<close> with native mountpoint \<^verbatim>\<open>/mnt\<close> is normalised to type \<^verbatim>\<open>snapshot\<close>
  with mountpoint \<^verbatim>\<open>/mnt\<close>, not the empty string.
\<close>

theorem dsToDataset_snapshot_mountpoint_counterexample:
  "map_sum id (\<lambda>d. (Type d, Mountpoint d)) (dsToDataset demo mounted_snapshot)
     = Inr (''snapshot'', ''/mnt'')"
  by (simp add: example_defs)

text \<open>
  C7. A record with \<^verbatim>\<open>used\<close> 1, \<^verbatim>\<open>available\<close> 2, \<^verbatim>\<open>written\<close> 3, \<^verbatim>\<open>logicalused\<close> 4,
  \<^verbatim>\<open>volsize\<close> 5 and \<^verbatim>\<open>usedbydataset\<close> 6 is normalised to a dataset whose \<^verbatim>\<open>Written\<close> is 2,
  the value of \<^verbatim>\<open>available\<close>; the other five fields carry their own property.
\<close>

theorem dsToDataset_written_is_available:
  "map_sum id (\<lambda>d. (Used d, Avail d, Written d, Logicalused d, Volsize d, Usedbydataset d))
     (dsToDataset demo accounting_raw) = Inr (1, 2, 2, 4, 5, 6)"
  by (simp add: example_defs)

section \<open>Children\<close>

text \<open>
  C9. When the listing behind \<^verbatim>\<open>Children(depth)\<close> succeeds, the result is the panic of
  \<^verbatim>\<open>datasets[1:]\<close> if the listing is empty, and otherwise the normalised listing without
  its first element (or the failure of the normalisation).
\<close>

theorem Children_empty_listing_panics:
  assumes "zfs_list N (Name d) [''all'' \<mapsto> True] True depth (world s) = (Inr dss, w)"
  shows "fst (Children N d depth s) =
           (if dss = [] then Inl (Panic (SliceBoundsOutOfRange 1 0))
            else map_sum id tl (toDatasets N dss))"
  using assms
  by (cases dss)
     (auto simp: Children_def getDatasets_def native_call_def Let_def failure_def
           split: prod.splits sum.splits list.splits)

theorem Children_empty_listing_panics_witness:
  "zfs_list (fixed_listing []) (Name (demo_dataset ''pool/a'')) [''all'' \<mapsto> True] True 0
       (world (demo_state [] [])) = (Inr [], ([], [])) \<and>
   fst (Children (fixed_listing []) (demo_dataset ''pool/a'') 0 (demo_state [] []))
     = Inl (Panic (SliceBoundsOutOfRange 1 0))"
proof -
  have h: "zfs_list (fixed_listing []) (Name (demo_dataset ''pool/a'')) [''all'' \<mapsto> True] True 0
             (world (demo_state [] [])) = (Inr [], ([], []))"
    by (simp add: fixed_listing_def demo_state_def)
  show ?thesis
    using Children_empty_listing_panics [OF h] h by simp
qed

section \<open>The Mount handler\<close>

text \<open>
  C8. A request that decodes to an empty name is answered with the error
  \<^verbatim>\<open>missing arg: name\<close> and the state is left as it was: no listing, no mount, no change
  of the kernel state. Conversely, whenever the handler makes a native call, the request
  decoded to a non-empty name.
\<close>

theorem ZFS_Mount_missing_name:
  "(UnmarshalArgs req = Inr args \<and> MountArgs_Name args = [] \<longrightarrow>
      ZFS_Mount N req s = (Some (ErrorString ''missing arg: name''), s)) \<and>
   (trace (snd (ZFS_Mount N req s)) \<noteq> trace s \<longrightarrow>
      (\<exists>args. UnmarshalArgs req = Inr args \<and> MountArgs_Name args \<noteq> []))"
  by (auto simp: ZFS_Mount_def split: sum.splits)

theorem ZFS_Mount_missing_name_witness:
  "UnmarshalArgs (Request (Inr \<lparr>MountArgs_Name = [], MountArgs_Overlay = True\<rparr>))
     = Inr \<lparr>MountArgs_Name = [], MountArgs_Overlay = True\<rparr> \<and>
   MountArgs_Name \<lparr>MountArgs_Name = [], MountArgs_Overlay = True\<rparr> = [] \<and>
   ZFS_Mount demo (Request (Inr \<lparr>MountArgs_Name = [], MountArgs_Overlay = True\<rparr>))
       (demo_state [''pool/a''] [])
     = (Some (ErrorString ''missing arg: name''), demo_state [''pool/a''] []) \<and>
   trace (snd (ZFS_Mount demo (Request (Inr \<lparr>MountArgs_Name = ''pool/a'', MountArgs_Overlay = True\<rparr>))
                 (demo_state [''pool/a''] [])))
     \<noteq> trace (demo_state [''pool/a''] [])"
proof -
  have t: "trace (snd (ZFS_Mount demo (Request (Inr \<lparr>MountArgs_Name = ''pool/a'', MountArgs_Overlay = True\<rparr>))
                 (demo_state [''pool/a''] [])))
     \<noteq> trace (demo_state [''pool/a''] [])"
    by (simp add: ZFS_Mount_def example_defs)
  show ?thesis
    using ZFS_Mount_missing_name
            [of "Request (Inr \<lparr>MountArgs_Name = [], MountArgs_Overlay = True\<rparr>)"
                "\<lparr>MountArgs_Name = [], MountArgs_Overlay = True\<rparr>" demo "demo_state [''pool/a''] []"]
          t
    by simp
qed

section \<open>Dataset.Destroy\<close>

text \<open>What a run adds to the log, step by step.\<close>

lemma did_nil: "did s [] r s"
  by (simp add: did_def fail_fast_def clean_def split: option.splits)

lemma clean_butlast: "clean t \<Longrightarrow> clean (butlast t)"
  by (auto simp: clean_def list_all_iff dest: in_set_butlastD)

lemma clean_last: "clean t \<Longrightarrow> t \<noteq> [] \<Longrightarrow> snd (last t) = None"
  by (simp add: clean_def list_all_iff)

lemma clean_append: "clean (t1 @ t2) = (clean t1 \<and> clean t2)"
  by (simp add: clean_def)

lemma fail_fast_append: "clean t1 \<Longrightarrow> fail_fast r t2 \<Longrightarrow> fail_fast r (t1 @ t2)"
proof (cases r)
  case None
  then show "clean t1 \<Longrightarrow> fail_fast r t2 \<Longrightarrow> fail_fast r (t1 @ t2)"
    by (simp add: fail_fast_def clean_append)
next
  case (Some e)
  assume c: "clean t1" and f: "fail_fast r t2"
  show "fail_fast r (t1 @ t2)"
  proof (cases "t2 = []")
    case True
    with c Some show ?thesis
      using clean_butlast [OF c] clean_last [OF c] by (auto simp: fail_fast_def)
  next
    case False
    with c f Some show ?thesis
      by (auto simp: fail_fast_def butlast_append clean_append)
  qed
qed

lemma did_seq:
  assumes "did s t1 None s1" and "did s1 t2 r s2"
  shows "did s (t1 @ t2) r s2"
proof -
  from assms(1) have "clean t1" by (simp add: did_def fail_fast_def)
  with assms(2) have "fail_fast r (t1 @ t2)" by (simp add: did_def fail_fast_append)
  with assms show ?thesis by (simp add: did_def)
qed

lemma did_call:
  "benign c \<Longrightarrow> native_call c f id s = (r, s') \<Longrightarrow> did s [(c, r)] r s'"
  by (auto simp: did_def native_call_def fail_fast_def clean_def split: prod.splits option.splits)

lemma getDatasets_did:
  "getDatasets N name ty rc dp s = (r, s') \<Longrightarrow>
     \<exists>e. did s [(CallList name [ty \<mapsto> True] rc dp, e)] (failure r) s'"
  by (auto simp: getDatasets_def Let_def did_def native_call_def fail_fast_def clean_def failure_def
           split: prod.splits sum.splits)

lemma GetDataset_did:
  "GetDataset N name s = (r, s') \<Longrightarrow>
     \<exists>e. did s [(CallList name [''all'' \<mapsto> True] False 0, e)] (failure r) s'"
  unfolding GetDataset_def
  apply (cases "getDatasets N name ''all'' False 0 s")
  subgoal for r1 s1
    using getDatasets_did [of N name "''all''" False 0 s r1 s1]
    by (auto simp: did_def fail_fast_def failure_def clean_def split: sum.splits list.splits)
  done

lemma Children_did:
  "Children N d dp s = (r, s') \<Longrightarrow>
     \<exists>e. did s [(CallList (Name d) [''all'' \<mapsto> True] True dp, e)] (failure r) s'"
  unfolding Children_def
  apply (cases "getDatasets N (Name d) ''all'' True dp s")
  subgoal for r1 s1
    using getDatasets_did [of N "Name d" "''all''" True dp s r1 s1]
    by (auto simp: did_def fail_fast_def failure_def clean_def split: sum.splits list.splits)
  done

lemma destroy_did: "destroy N name df s = (r, s') \<Longrightarrow> \<exists>t. did s t r s'"
proof (cases "nv_Encode N [''cmd'' \<mapsto> IString ''zfs_destroy'', ''version'' \<mapsto> IUint64 0, ''defer'' \<mapsto> IBool df]")
  case (Inl e)
  assume "destroy N name df s = (r, s')"
  with Inl show ?thesis by (auto simp: destroy_def intro: did_nil)
next
  case (Inr b)
  assume "destroy N name df s = (r, s')"
  with Inr have "native_call (CallIoctl name b) (zfs_ioctl N name b) id s = (r, s')"
    by (simp add: destroy_def)
  from did_call [OF _ this] show ?thesis by auto
qed

lemma andThen_did:
  assumes "andThen m f = Some (r, s')"
    and "\<And>r1 s1. m = Some (r1, s1) \<Longrightarrow> \<exists>t. did s t r1 s1"
    and "\<And>s1 r2 s2. m = Some (None, s1) \<Longrightarrow> f s1 = Some (r2, s2) \<Longrightarrow> \<exists>t. did s1 t r2 s2"
  shows "\<exists>t. did s t r s'"
proof (cases m)
  case None
  with assms(1) show ?thesis by (simp add: andThen_def)
next
  case (Some p)
  obtain r1 s1 where p: "p = (r1, s1)" by (cases p)
  show ?thesis
  proof (cases r1)
    case None
    with Some p assms(1) have "f s1 = Some (r, s')" by (simp add: andThen_def)
    with assms(2,3) Some p None show ?thesis by (blast intro: did_seq)
  next
    case (Some e)
    with \<open>m = Some p\<close> p assms(1) have "r = Some e" "s' = s1" by (simp_all add: andThen_def)
    with assms(2) \<open>m = Some p\<close> p Some show ?thesis by blast
  qed
qed

lemma forEach_did:
  assumes "\<And>x s r s'. x \<in> set xs \<Longrightarrow> body x s = Some (r, s') \<Longrightarrow> \<exists>t. did s t r s'"
    and "forEach body xs s = Some (r, s')"
  shows "\<exists>t. did s t r s'"
  using assms
proof (induction xs arbitrary: s r s')
  case Nil
  then show ?case by (auto intro: did_nil)
next
  case (Cons x xs)
  from Cons.prems(2) have "andThen (body x s) (forEach body xs) = Some (r, s')" by simp
  then show ?case
  proof (rule andThen_did)
    fix r1 s1 assume "body x s = Some (r1, s1)"
    then show "\<exists>t. did s t r1 s1" using Cons.prems(1) [of x s r1 s1] by simp
  next
    fix s1 r2 s2 assume f: "forEach body xs s1 = Some (r2, s2)"
    show "\<exists>t. did s1 t r2 s2"
    proof (rule Cons.IH [OF _ f])
      fix y s r s' assume "y \<in> set xs" "body y s = Some (r, s')"
      then show "\<exists>t. did s t r s'" using Cons.prems(1) [of y s r s'] by simp
    qed
  qed
qed

lemma destroyChildren_did:
  assumes "\<And>x s r s'. self x s = Some (r, s') \<Longrightarrow> \<exists>t. did s t r s'"
    and "destroyChildren self N d s = Some (r, s')"
  shows "\<exists>t. did s t r s'"
proof (cases "Children N d 1 s")
  case (Pair r1 s1)
  from Children_did [OF Pair] obtain e where
    c: "did s [(CallList (Name d) [''all'' \<mapsto> True] True 1, e)] (failure r1) s1" ..
  show ?thesis
  proof (cases r1)
    case (Inl err)
    with Pair assms(2) c show ?thesis by (auto simp: destroyChildren_def failure_def)
  next
    case (Inr children)
    with Pair assms(2) have "forEach self children s1 = Some (r, s')"
      by (simp add: destroyChildren_def)
    from forEach_did [OF _ this] assms(1) obtain t where "did s1 t r s'" by blast
    with c Inr show ?thesis by (auto simp: failure_def intro: did_seq)
  qed
qed

lemma destroyClone_did:
  assumes "\<And>x s r s'. self x s = Some (r, s') \<Longrightarrow> \<exists>t. did s t r s'"
    and "destroyClone self N cn s = Some (r, s')"
  shows "\<exists>t. did s t r s'"
proof (cases "GetDataset N cn s")
  case (Pair r1 s1)
  from GetDataset_did [OF Pair] obtain e where
    c: "did s [(CallList cn [''all'' \<mapsto> True] False 0, e)] (failure r1) s1" ..
  show ?thesis
  proof (cases r1)
    case (Inl err)
    with Pair assms(2) c show ?thesis by (auto simp: destroyClone_def failure_def)
  next
    case (Inr clone)
    with Pair assms(2) have "self clone s1 = Some (r, s')"
      by (simp add: destroyClone_def)
    from assms(1) [OF this] obtain t where "did s1 t r s'" ..
    with c Inr show ?thesis by (auto simp: failure_def intro: did_seq)
  qed
qed

lemma destroyClones_did:
  assumes "\<And>x s r s'. self x s = Some (r, s') \<Longrightarrow> \<exists>t. did s t r s'"
    and "destroyClones self N d s = Some (r, s')"
  shows "\<exists>t. did s t r s'"
proof (cases "ds d")
  case None
  with assms(2) show ?thesis by (auto simp: destroyClones_def intro: did_nil)
next
  case (Some raw)
  show ?thesis
  proof (cases "ds_Properties raw")
    case None
    with Some assms(2) show ?thesis by (auto simp: destroyClones_def intro: did_nil)
  next
    case (Some props)
    with \<open>ds d = Some raw\<close> assms(2)
    have f: "forEach (destroyClone self N) (map fst (clones_Value (prop_Clones props))) s = Some (r, s')"
      by (simp add: destroyClones_def)
    show ?thesis
    proof (rule forEach_did [OF _ f])
      fix x s r s' assume "destroyClone self N x s = Some (r, s')"
      then show "\<exists>t. did s t r s'" using assms(1) by (rule destroyClone_did [rotated])
    qed
  qed
qed

lemma Destroy_did: "Destroy n N opts d s = Some (r, s') \<Longrightarrow> \<exists>t. did s t r s'"
proof (induction n arbitrary: d s r s')
  case 0
  then show ?case by simp
next
  case (Suc n)
  have self: "\<And>x s r s'. Destroy n N opts x s = Some (r, s') \<Longrightarrow> \<exists>t. did s t r s'"
    using Suc.IH by blast
  from Suc.prems show ?case
    unfolding Destroy.simps
  proof (rule andThen_did)
    fix r1 s1
    assume "(if Recursive opts then destroyChildren (Destroy n N opts) N d s else Some (None, s)) = Some (r1, s1)"
    then show "\<exists>t. did s t r1 s1"
      using destroyChildren_did [of "Destroy n N opts", OF self]
      by (auto split: if_splits intro: did_nil)
  next
    fix s1 r2 s2
    assume "andThen (if RecursiveClones opts then destroyClones (Destroy n N opts) N d s1 else Some (None, s1))
              (\<lambda>s2. Some (destroy N (Name d) (Defer opts) s2)) = Some (r2, s2)"
    then show "\<exists>t. did s1 t r2 s2"
    proof (rule andThen_did)
      fix r1 s1'
      assume "(if RecursiveClones opts then destroyClones (Destroy n N opts) N d s1 else Some (None, s1)) = Some (r1, s1')"
      then show "\<exists>t. did s1 t r1 s1'"
        using destroyClones_did [of "Destroy n N opts", OF self]
        by (auto split: if_splits intro: did_nil)
    next
      fix s1' r2' s2'
      assume "Some (destroy N (Name d) (Defer opts) s1') = Some (r2', s2')"
      then show "\<exists>t. did s1' t r2' s2'" by (auto intro: destroy_did)
    qed
  qed
qed

lemma andThen_Some:
  "andThen m f = Some (r, s') \<longleftrightarrow>
     (\<exists>e. m = Some (Some e, s') \<and> r = Some e) \<or> (\<exists>s1. m = Some (None, s1) \<and> f s1 = Some (r, s'))"
  by (auto simp: andThen_def split: option.splits prod.splits)

lemma andThen_None:
  "andThen m f = Some (None, s') \<longleftrightarrow> (\<exists>s1. m = Some (None, s1) \<and> f s1 = Some (None, s'))"
  by (auto simp: andThen_Some)

lemma forEach_append:
  "forEach body (xs @ ys) s = andThen (forEach body xs s) (forEach body ys)"
  by (induction xs arbitrary: s) (auto simp: andThen_def split: option.splits prod.splits)

lemma forEach_stops:
  assumes "forEach body pre s = Some (None, s1)" and "body x s1 = Some (Some e, s2)"
  shows "forEach body (pre @ x # post) s = Some (Some e, s2)"
  using assms by (simp add: forEach_append andThen_def)

lemma forEach_visits:
  assumes inv: "\<And>x s r s'. body x s = Some (r, s') \<Longrightarrow> \<exists>t. did s t r s' \<and> (r = None \<longrightarrow> Q x t)"
    and ext: "\<And>x t t1 t2. Q x t \<Longrightarrow> Q x (t1 @ t @ t2)"
    and run: "forEach body xs s = Some (None, s')"
  shows "\<exists>t. did s t None s' \<and> (\<forall>x\<in>set xs. Q x t)"
  using run
proof (induction xs arbitrary: s)
  case Nil
  then show ?case by (auto intro: did_nil)
next
  case (Cons x xs)
  from Cons.prems obtain s1 where
    b: "body x s = Some (None, s1)" and f: "forEach body xs s1 = Some (None, s')"
    by (auto simp: andThen_None)
  from inv [OF b] obtain t1 where t1: "did s t1 None s1" "Q x t1" by auto
  from Cons.IH [OF f] obtain t2 where t2: "did s1 t2 None s'" "\<forall>y\<in>set xs. Q y t2" by auto
  have "did s (t1 @ t2) None s'" using t1(1) t2(1) by (rule did_seq)
  moreover have "Q x (t1 @ t2)" using ext [OF t1(2), of "[]" t2] by simp
  moreover have "\<forall>y\<in>set xs. Q y (t1 @ t2)"
  proof
    fix y assume "y \<in> set xs"
    with t2(2) have "Q y t2" by simp
    from ext [OF this, of t1 "[]"] show "Q y (t1 @ t2)" by simp
  qed
  ultimately show ?case by auto
qed

lemma destroy_success:
  assumes "destroy N name df s = (None, s')"
  shows "\<exists>b. nv_Encode N [''cmd'' \<mapsto> IString ''zfs_destroy'', ''version'' \<mapsto> IUint64 0,
                           ''defer'' \<mapsto> IBool df] = Inr b \<and>
              trace s' = trace s @ [(CallIoctl name b, None)]"
  using assms
  by (auto simp: destroy_def Let_def native_call_def split: sum.splits prod.splits)

lemma did_trace: "did s t r s' \<Longrightarrow> trace s' = trace s @ t"
  by (simp add: did_def)

lemma did_same: "did s t r s' \<Longrightarrow> trace s' = trace s @ u \<Longrightarrow> did s u r s'"
  by (simp add: did_def)


lemma destroy_did_success:
  assumes "destroy N name df s = (None, s')"
  shows "\<exists>b. nv_Encode N [''cmd'' \<mapsto> IString ''zfs_destroy'', ''version'' \<mapsto> IUint64 0,
                           ''defer'' \<mapsto> IBool df] = Inr b \<and>
              did s [(CallIoctl name b, None)] None s'"
  using destroy_success [OF assms]
  by (auto simp: did_def fail_fast_def clean_def)

lemma destroyChildren_Destroy_did:
  assumes "destroyChildren (Destroy m N opts) N d s = Some (r, s')"
  shows "\<exists>t. did s t r s'"
proof (rule destroyChildren_did [OF _ assms])
  fix x s r s' assume "Destroy m N opts x s = Some (r, s')"
  then show "\<exists>t. did s t r s'" by (rule Destroy_did)
qed

lemma destroyClones_Destroy_did:
  assumes "destroyClones (Destroy m N opts) N d s = Some (r, s')"
  shows "\<exists>t. did s t r s'"
proof (rule destroyClones_did [OF _ assms])
  fix x s r s' assume "Destroy m N opts x s = Some (r, s')"
  then show "\<exists>t. did s t r s'" by (rule Destroy_did)
qed

lemma Destroy_phases:
  assumes "Destroy (Suc n) N opts d s = Some (None, s')"
  shows "\<exists>s1 s2.
           (if Recursive opts then destroyChildren (Destroy n N opts) N d s else Some (None, s))
             = Some (None, s1) \<and>
           (if RecursiveClones opts then destroyClones (Destroy n N opts) N d s1 else Some (None, s1))
             = Some (None, s2) \<and>
           destroy N (Name d) (Defer opts) s2 = (None, s')"
  using assms by (auto simp: andThen_None)

text \<open>A successful \<^verbatim>\<open>Destroy\<close> ends with the destruction of its own dataset.\<close>

lemma Destroy_last:
  assumes "Destroy n N opts d s = Some (None, s')"
  shows "\<exists>b t. nv_Encode N [''cmd'' \<mapsto> IString ''zfs_destroy'', ''version'' \<mapsto> IUint64 0,
                             ''defer'' \<mapsto> IBool (Defer opts)] = Inr b \<and>
                did s (t @ [(CallIoctl (Name d) b, None)]) None s'"
proof -
  from assms obtain m where n: "n = Suc m" by (cases n) auto
  from Destroy_phases [OF assms [unfolded n]] obtain s1 s2 where
    p1: "(if Recursive opts then destroyChildren (Destroy m N opts) N d s else Some (None, s))
           = Some (None, s1)" and
    p2: "(if RecursiveClones opts then destroyClones (Destroy m N opts) N d s1 else Some (None, s1))
           = Some (None, s2)" and
    p3: "destroy N (Name d) (Defer opts) s2 = (None, s')" by blast
  from p1 have "\<exists>t1. did s t1 None s1"
    by (auto split: if_splits intro: did_nil destroyChildren_Destroy_did)
  then obtain t1 where t1: "did s t1 None s1" ..
  from p2 have "\<exists>t2. did s1 t2 None s2"
    by (auto split: if_splits intro: did_nil destroyClones_Destroy_did)
  then obtain t2 where t2: "did s1 t2 None s2" ..
  from destroy_did_success [OF p3] obtain b where
    b: "nv_Encode N [''cmd'' \<mapsto> IString ''zfs_destroy'', ''version'' \<mapsto> IUint64 0,
                     ''defer'' \<mapsto> IBool (Defer opts)] = Inr b" and
    t3: "did s2 [(CallIoctl (Name d) b, None)] None s'" by blast
  have "did s (t1 @ t2 @ [(CallIoctl (Name d) b, None)]) None s'"
    using t1 did_seq [OF t2 t3] by (rule did_seq)
  then have "did s ((t1 @ t2) @ [(CallIoctl (Name d) b, None)]) None s'" by simp
  with b show ?thesis by blast
qed


lemma did_single_None: "did s [(c, e)] None s' \<Longrightarrow> e = None"
  by (simp add: did_def fail_fast_def clean_def)

lemma did_cancel: "did s t r s' \<Longrightarrow> trace s' = trace s @ u \<Longrightarrow> t = u"
  by (simp add: did_def)

text \<open>With \<^verbatim>\<open>Recursive\<close> set, the first call of \<^verbatim>\<open>Destroy\<close> lists the children.\<close>

lemma destroyChildren_first:
  assumes "destroyChildren (Destroy m N opts) N d s = Some (r, s')"
  shows "\<exists>e t. did s ((CallList (Name d) [''all'' \<mapsto> True] True 1, e) # t) r s'"
proof (cases "Children N d 1 s")
  case (Pair rc sc)
  from Children_did [OF Pair] obtain e where
    c: "did s [(CallList (Name d) [''all'' \<mapsto> True] True 1, e)] (failure rc) sc" ..
  show ?thesis
  proof (cases rc)
    case (Inl err)
    with Pair assms c show ?thesis by (auto simp: destroyChildren_def failure_def)
  next
    case (Inr children)
    with Pair assms have f: "forEach (Destroy m N opts) children sc = Some (r, s')"
      by (simp add: destroyChildren_def)
    have "\<exists>t. did sc t r s'"
    proof (rule forEach_did [OF _ f])
      fix x s r s' assume "Destroy m N opts x s = Some (r, s')"
      then show "\<exists>t. did s t r s'" by (rule Destroy_did)
    qed
    then obtain t where t: "did sc t r s'" ..
    from c Inr have "did s [(CallList (Name d) [''all'' \<mapsto> True] True 1, e)] None sc"
      by (simp add: failure_def)
    from did_seq [OF this t] show ?thesis by auto
  qed
qed

lemma Destroy_first:
  assumes "Recursive opts" and "Destroy (Suc n) N opts d s = Some (r, s')"
  shows "\<exists>e t. did s ((CallList (Name d) [''all'' \<mapsto> True] True 1, e) # t) r s'"
proof -
  let ?rest = "\<lambda>s1. andThen (if RecursiveClones opts then destroyClones (Destroy n N opts) N d s1
                                else Some (None, s1))
                 (\<lambda>s2. Some (destroy N (Name d) (Defer opts) s2))"
  from assms have
    "(\<exists>e. destroyChildren (Destroy n N opts) N d s = Some (Some e, s') \<and> r = Some e) \<or>
     (\<exists>s1. destroyChildren (Destroy n N opts) N d s = Some (None, s1) \<and> ?rest s1 = Some (r, s'))"
    by (simp add: andThen_Some)
  then show ?thesis
  proof
    assume "\<exists>e. destroyChildren (Destroy n N opts) N d s = Some (Some e, s') \<and> r = Some e"
    then show ?thesis using destroyChildren_first by blast
  next
    assume "\<exists>s1. destroyChildren (Destroy n N opts) N d s = Some (None, s1) \<and> ?rest s1 = Some (r, s')"
    then obtain s1 where
      a: "destroyChildren (Destroy n N opts) N d s = Some (None, s1)" and
      b: "?rest s1 = Some (r, s')" by blast
    from destroyChildren_first [OF a] obtain e t where
      t: "did s ((CallList (Name d) [''all'' \<mapsto> True] True 1, e) # t) None s1" by blast
    from b have "\<exists>t2. did s1 t2 r s'"
    proof (rule andThen_did)
      fix r1 s1'
      assume "(if RecursiveClones opts then destroyClones (Destroy n N opts) N d s1 else Some (None, s1))
                = Some (r1, s1')"
      then show "\<exists>t. did s1 t r1 s1'"
        by (auto split: if_splits intro: did_nil destroyClones_Destroy_did)
    next
      fix s1' r2' s2'
      assume "Some (destroy N (Name d) (Defer opts) s1') = Some (r2', s2')"
      then show "\<exists>t. did s1' t r2' s2'" by (auto intro: destroy_did)
    qed
    then obtain t2 where "did s1 t2 r s'" ..
    from did_seq [OF t this] show ?thesis by auto
  qed
qed

text \<open>What a successful pass over one clone name leaves in the log.\<close>

lemma destroyClone_run:
  assumes enc: "nv_Encode N [''cmd'' \<mapsto> IString ''zfs_destroy'', ''version'' \<mapsto> IUint64 0,
                            ''defer'' \<mapsto> IBool (Defer opts)] = Inr b"
    and run: "destroyClone (Destroy m N opts) N cn s = Some (r, s')"
  shows "\<exists>t. did s t r s' \<and>
           (r = None \<longrightarrow>
              (\<exists>u v nm. t = u @ (CallList cn [''all'' \<mapsto> True] False 0, None) # v \<and>
                         (CallIoctl nm b, None) \<in> set v))"
proof (cases r)
  case (Some e)
  have "\<exists>t. did s t r s'"
  proof (rule destroyClone_did [OF _ run])
    fix x s r s' assume "Destroy m N opts x s = Some (r, s')"
    then show "\<exists>t. did s t r s'" by (rule Destroy_did)
  qed
  with Some show ?thesis by auto
next
  case None
  obtain rg sg where g: "GetDataset N cn s = (rg, sg)" by (cases "GetDataset N cn s")
  from GetDataset_did [OF g] obtain e where
    c: "did s [(CallList cn [''all'' \<mapsto> True] False 0, e)] (failure rg) sg" ..
  from run None g obtain clone where
    rg: "rg = Inr clone" and d: "Destroy m N opts clone sg = Some (None, s')"
    by (auto simp: destroyClone_def split: sum.splits)
  from c rg have c': "did s [(CallList cn [''all'' \<mapsto> True] False 0, None)] None sg"
    using did_single_None [of s _ e sg] by (auto simp: failure_def)
  from Destroy_last [OF d] enc obtain t where
    t: "did sg (t @ [(CallIoctl (Name clone) b, None)]) None s'" by auto
  from did_seq [OF c' t]
  have "did s ([] @ (CallList cn [''all'' \<mapsto> True] False 0, None) # (t @ [(CallIoctl (Name clone) b, None)])) None s'"
    by simp
  moreover have "(CallIoctl (Name clone) b, None) \<in> set (t @ [(CallIoctl (Name clone) b, None)])"
    by simp
  ultimately show ?thesis using None by blast
qed

lemma Destroy_success_order:
  assumes rec: "Recursive opts" and clo: "RecursiveClones opts"
    and run: "Destroy (Suc n) N opts d s = Some (None, s')"
  shows "\<exists>children s1 raw props b tc tk.
           Children N d 1 s = (Inr children, s1) \<and>
           ds d = Some raw \<and> ds_Properties raw = Some props \<and>
           nv_Encode N [''cmd'' \<mapsto> IString ''zfs_destroy'', ''version'' \<mapsto> IUint64 0,
                        ''defer'' \<mapsto> IBool (Defer opts)] = Inr b \<and>
           trace s' = trace s @ (CallList (Name d) [''all'' \<mapsto> True] True 1, None)
                                 # tc @ tk @ [(CallIoctl (Name d) b, None)] \<and>
           (\<forall>c\<in>set children. (CallIoctl (Name c) b, None) \<in> set tc) \<and>
           (\<forall>cn\<in>set (map fst (clones_Value (prop_Clones props))).
              \<exists>u v nm. tk = u @ (CallList cn [''all'' \<mapsto> True] False 0, None) # v \<and>
                        (CallIoctl nm b, None) \<in> set v)"
proof -
  from Destroy_phases [OF run] rec clo obtain s1 s2 where
    p1: "destroyChildren (Destroy n N opts) N d s = Some (None, s1)" and
    p2: "destroyClones (Destroy n N opts) N d s1 = Some (None, s2)" and
    p3: "destroy N (Name d) (Defer opts) s2 = (None, s')" by auto
  from destroy_did_success [OF p3] obtain b where
    enc: "nv_Encode N [''cmd'' \<mapsto> IString ''zfs_destroy'', ''version'' \<mapsto> IUint64 0,
                       ''defer'' \<mapsto> IBool (Defer opts)] = Inr b" and
    t3: "did s2 [(CallIoctl (Name d) b, None)] None s'" by blast
  obtain rc sc where ch: "Children N d 1 s = (rc, sc)" by (cases "Children N d 1 s")
  from Children_did [OF ch] obtain e where
    c: "did s [(CallList (Name d) [''all'' \<mapsto> True] True 1, e)] (failure rc) sc" ..
  from p1 ch obtain children where
    rc: "rc = Inr children" and f1: "forEach (Destroy n N opts) children sc = Some (None, s1)"
    by (auto simp: destroyChildren_def split: sum.splits)
  from c rc have c': "did s [(CallList (Name d) [''all'' \<mapsto> True] True 1, None)] None sc"
    using did_single_None [of s _ e sc] by (auto simp: failure_def)
  have "\<exists>tc. did sc tc None s1 \<and> (\<forall>c\<in>set children. (CallIoctl (Name c) b, None) \<in> set tc)"
  proof (rule forEach_visits [OF _ _ f1])
    fix x s r s' assume x: "Destroy n N opts x s = Some (r, s')"
    show "\<exists>t. did s t r s' \<and> (r = None \<longrightarrow> (CallIoctl (Name x) b, None) \<in> set t)"
    proof (cases r)
      case (Some e)
      with Destroy_did [OF x] show ?thesis by auto
    next
      case None
      with Destroy_last [of n N opts x s s'] x enc show ?thesis by auto
    qed
  next
    fix x :: Dataset and t t1 t2 :: "('b call \<times> error option) list"
    assume "(CallIoctl (Name x) b, None) \<in> set t"
    then show "(CallIoctl (Name x) b, None) \<in> set (t1 @ t @ t2)" by simp
  qed
  then obtain tc where
    tc: "did sc tc None s1" and qc: "\<forall>c\<in>set children. (CallIoctl (Name c) b, None) \<in> set tc"
    by blast
  from p2 obtain raw props where
    raw: "ds d = Some raw" and props: "ds_Properties raw = Some props" and
    f2: "forEach (destroyClone (Destroy n N opts) N) (map fst (clones_Value (prop_Clones props))) s1
           = Some (None, s2)"
    by (auto simp: destroyClones_def split: option.splits)
  have "\<exists>tk. did s1 tk None s2 \<and>
          (\<forall>cn\<in>set (map fst (clones_Value (prop_Clones props))).
             \<exists>u v nm. tk = u @ (CallList cn [''all'' \<mapsto> True] False 0, None) # v \<and>
                       (CallIoctl nm b, None) \<in> set v)"
  proof (rule forEach_visits [OF _ _ f2])
    fix x s r s' assume "destroyClone (Destroy n N opts) N x s = Some (r, s')"
    from destroyClone_run [OF enc this]
    show "\<exists>t. did s t r s' \<and>
            (r = None \<longrightarrow> (\<exists>u v nm. t = u @ (CallList x [''all'' \<mapsto> True] False 0, None) # v \<and>
                                   (CallIoctl nm b, None) \<in> set v))" .
  next
    fix x :: string and t t1 t2 :: "('b call \<times> error option) list"
    assume "\<exists>u v nm. t = u @ (CallList x [''all'' \<mapsto> True] False 0, None) # v \<and>
                      (CallIoctl nm b, None) \<in> set v"
    then obtain u v nm where
      "t = u @ (CallList x [''all'' \<mapsto> True] False 0, None) # v" "(CallIoctl nm b, None) \<in> set v"
      by blast
    then have "t1 @ t @ t2 = (t1 @ u) @ (CallList x [''all'' \<mapsto> True] False 0, None) # (v @ t2) \<and>
               (CallIoctl nm b, None) \<in> set (v @ t2)" by simp
    then show "\<exists>u v nm. t1 @ t @ t2 = u @ (CallList x [''all'' \<mapsto> True] False 0, None) # v \<and>
                         (CallIoctl nm b, None) \<in> set v" by blast
  qed
  then obtain tk where
    tk: "did s1 tk None s2" and
    qk: "\<forall>cn\<in>set (map fst (clones_Value (prop_Clones props))).
           \<exists>u v nm. tk = u @ (CallList cn [''all'' \<mapsto> True] False 0, None) # v \<and>
                     (CallIoctl nm b, None) \<in> set v"
    by blast
  from did_seq [OF c' did_seq [OF tc did_seq [OF tk t3]]]
  have "trace s' = trace s @ (CallList (Name d) [''all'' \<mapsto> True] True 1, None)
                             # tc @ tk @ [(CallIoctl (Name d) b, None)]"
    by (simp add: did_def)
  with ch rc raw props enc qc qk show ?thesis by blast
qed


text \<open>A failing step ends the call in the state that step left.\<close>

lemma Destroy_stops_listing:
  assumes "Recursive opts" and "Destroy (Suc n) N opts d s = Some (r, s')"
    and "Children N d 1 s = (Inl e1, s1)"
  shows "r = Some e1 \<and> s' = s1"
  using assms by (simp add: destroyChildren_def andThen_def)

lemma Destroy_stops_child:
  assumes "Recursive opts" and "Destroy (Suc n) N opts d s = Some (r, s')"
    and "Children N d 1 s = (Inr (pre @ c # post), s1)"
    and "forEach (Destroy n N opts) pre s1 = Some (None, s2)"
    and "Destroy n N opts c s2 = Some (Some e1, s3)"
  shows "r = Some e1 \<and> s' = s3"
  using assms(1,2,3) forEach_stops [OF assms(4,5), of post]
  by (simp add: destroyChildren_def andThen_def)

lemma Destroy_stops_fetch:
  assumes "Recursive opts" and "RecursiveClones opts"
    and "Destroy (Suc n) N opts d s = Some (r, s')"
    and "Children N d 1 s = (Inr children, s1)"
    and "forEach (Destroy n N opts) children s1 = Some (None, s2)"
    and "ds d = Some raw" and "ds_Properties raw = Some props"
    and "map fst (clones_Value (prop_Clones props)) = pre @ cn # post"
    and "forEach (destroyClone (Destroy n N opts) N) pre s2 = Some (None, s3)"
    and "GetDataset N cn s3 = (Inl e1, s4)"
  shows "r = Some e1 \<and> s' = s4"
proof -
  from assms(10) have "destroyClone (Destroy n N opts) N cn s3 = Some (Some e1, s4)"
    by (simp add: destroyClone_def)
  from forEach_stops [OF assms(9) this, of post] assms(1-8) show ?thesis
    by (simp add: destroyChildren_def destroyClones_def andThen_def)
qed

lemma Destroy_stops_clone:
  assumes "Recursive opts" and "RecursiveClones opts"
    and "Destroy (Suc n) N opts d s = Some (r, s')"
    and "Children N d 1 s = (Inr children, s1)"
    and "forEach (Destroy n N opts) children s1 = Some (None, s2)"
    and "ds d = Some raw" and "ds_Properties raw = Some props"
    and "map fst (clones_Value (prop_Clones props)) = pre @ cn # post"
    and "forEach (destroyClone (Destroy n N opts) N) pre s2 = Some (None, s3)"
    and "GetDataset N cn s3 = (Inr clone, s4)"
    and "Destroy n N opts clone s4 = Some (Some e1, s5)"
  shows "r = Some e1 \<and> s' = s5"
proof -
  from assms(10,11) have "destroyClone (Destroy n N opts) N cn s3 = Some (Some e1, s5)"
    by (simp add: destroyClone_def)
  from forEach_stops [OF assms(9) this, of post] assms(1-8) show ?thesis
    by (simp add: destroyChildren_def destroyClones_def andThen_def)
qed

lemma Destroy_own_last:
  assumes "Recursive opts" and "RecursiveClones opts"
    and "Destroy (Suc n) N opts d s = Some (r, s')"
    and "Children N d 1 s = (Inr children, s1)"
    and "forEach (Destroy n N opts) children s1 = Some (None, s2)"
    and "ds d = Some raw" and "ds_Properties raw = Some props"
    and "forEach (destroyClone (Destroy n N opts) N) (map fst (clones_Value (prop_Clones props))) s2
           = Some (None, s3)"
  shows "destroy N (Name d) (Defer opts) s3 = (r, s')"
  using assms by (simp add: destroyChildren_def destroyClones_def andThen_def)

text \<open>More depth never changes a result that less depth has produced.\<close>

lemma forEach_mono:
  assumes "\<And>x s y. f x s = Some y \<Longrightarrow> g x s = Some y"
    and "forEach f xs s = Some y"
  shows "forEach g xs s = Some y"
  using assms(2)
proof (induction xs arbitrary: s)
  case Nil
  then show ?case by simp
next
  case (Cons x xs)
  obtain r s' where y: "y = (r, s')" by (cases y)
  from Cons.prems [unfolded y] have
    "(\<exists>e. f x s = Some (Some e, s') \<and> r = Some e) \<or>
     (\<exists>s1. f x s = Some (None, s1) \<and> forEach f xs s1 = Some (r, s'))"
    by (simp add: andThen_Some)
  then show ?case
  proof
    assume "\<exists>e. f x s = Some (Some e, s') \<and> r = Some e"
    then obtain e where "f x s = Some (Some e, s')" "r = Some e" by blast
    with assms(1) [of x s "(Some e, s')"] y show ?thesis by (simp add: andThen_def)
  next
    assume "\<exists>s1. f x s = Some (None, s1) \<and> forEach f xs s1 = Some (r, s')"
    then obtain s1 where a: "f x s = Some (None, s1)" and b: "forEach f xs s1 = Some (r, s')"
      by blast
    from Cons.IH [OF b [folded y]] assms(1) [OF a] show ?thesis by (simp add: andThen_def)
  qed
qed

lemma Destroy_Suc: "Destroy n N opts d s = Some y \<Longrightarrow> Destroy (Suc n) N opts d s = Some y"
proof (induction n arbitrary: d s y)
  case 0
  then show ?case by simp
next
  case (Suc n)
  have self: "\<And>x s y. Destroy n N opts x s = Some y \<Longrightarrow> Destroy (Suc n) N opts x s = Some y"
    by (rule Suc.IH)
  have ch: "\<And>s z. destroyChildren (Destroy n N opts) N d s = Some z \<Longrightarrow>
                   destroyChildren (Destroy (Suc n) N opts) N d s = Some z"
    unfolding destroyChildren_def
    by (auto simp del: Destroy.simps split: prod.splits sum.splits intro: forEach_mono [OF self])
  have cl1: "\<And>cn s z. destroyClone (Destroy n N opts) N cn s = Some z \<Longrightarrow>
                   destroyClone (Destroy (Suc n) N opts) N cn s = Some z"
    unfolding destroyClone_def
    by (auto simp del: Destroy.simps split: prod.splits sum.splits intro: self)
  have cl: "\<And>s z. destroyClones (Destroy n N opts) N d s = Some z \<Longrightarrow>
                   destroyClones (Destroy (Suc n) N opts) N d s = Some z"
    unfolding destroyClones_def
    by (auto simp del: Destroy.simps split: option.splits intro: forEach_mono [OF cl1])
  have p1: "\<And>z. (if Recursive opts then destroyChildren (Destroy n N opts) N d s else Some (None, s)) = Some z
              \<Longrightarrow> (if Recursive opts then destroyChildren (Destroy (Suc n) N opts) N d s else Some (None, s)) = Some z"
    by (auto simp del: Destroy.simps split: if_splits intro: ch)
  have p2: "\<And>s1 z. (if RecursiveClones opts then destroyClones (Destroy n N opts) N d s1 else Some (None, s1)) = Some z
              \<Longrightarrow> (if RecursiveClones opts then destroyClones (Destroy (Suc n) N opts) N d s1 else Some (None, s1)) = Some z"
    by (auto simp del: Destroy.simps split: if_splits intro: cl)
  obtain r s' where y: "y = (r, s')" by (cases y)
  from Suc.prems [unfolded Destroy.simps(2) y andThen_Some] p1 p2
  show ?case
    unfolding Destroy.simps(2) y andThen_Some by blast
qed

lemma Destroy_more_depth:
  "Destroy n N opts d s = Some y \<Longrightarrow> Destroy (n + k) N opts d s = Some y"
  by (induction k) (auto simp del: Destroy.simps intro: Destroy_Suc)

text \<open>
  C1. Let \<^verbatim>\<open>Destroy\<close> with \<^verbatim>\<open>Recursive\<close> and \<^verbatim>\<open>RecursiveClones\<close> set return a result \<open>r\<close>
  in the state \<open>s'\<close>. Then:

  \<^item> The calls it made extend the log, and the first of them lists the dataset at
    depth 1. The log obeys \<open>fail_fast\<close>: a native call that failed is the last call made,
    and its error is the result. Only listings and destroy commands were issued.

  \<^item> On success, the log after that listing splits into a part \<open>tc\<close> in which every
    child of the listing was destroyed, a part \<open>tk\<close> in which every name of the
    dataset's clone map was fetched and a destroy command succeeded after the fetch, and,
    last of all, the destroy command for the dataset itself, whose request is the
    encoding of \<^verbatim>\<open>cmd = zfs_destroy\<close>, \<^verbatim>\<open>version = 0\<close> and \<^verbatim>\<open>defer\<close> as in the options. The
    children's and clones' destroy commands carry the same request.

  \<^item> A step that fails ends the call with that step's error and in the state that step
    left, so nothing runs after it: the listing of the children; the recursive
    \<^verbatim>\<open>Destroy\<close>, with the same options, of a child after the children before it
    succeeded; the fetch of a clone, or its recursive \<^verbatim>\<open>Destroy\<close>, after all children and
    the clones before it succeeded.

  \<^item> When all of these succeed, the result and final state of the call are those of
    \<^verbatim>\<open>destroy(d.Name, opts.Defer)\<close>.
\<close>

theorem Destroy_recursive_order:
  assumes "Recursive opts" and "RecursiveClones opts"
    and "Destroy (Suc n) N opts d s = Some (r, s')"
  shows
    "(\<exists>e t. trace s' = trace s @ (CallList (Name d) [''all'' \<mapsto> True] True 1, e) # t \<and>
            fail_fast r ((CallList (Name d) [''all'' \<mapsto> True] True 1, e) # t) \<and>
            list_all (\<lambda>entry. benign (fst entry)) t \<and>
            (r = None \<longrightarrow>
               (\<exists>children s1 raw props b tc tk.
                   Children N d 1 s = (Inr children, s1) \<and>
                   ds d = Some raw \<and> ds_Properties raw = Some props \<and>
                   nv_Encode N [''cmd'' \<mapsto> IString ''zfs_destroy'', ''version'' \<mapsto> IUint64 0,
                                ''defer'' \<mapsto> IBool (Defer opts)] = Inr b \<and>
                   t = tc @ tk @ [(CallIoctl (Name d) b, None)] \<and>
                   (\<forall>c\<in>set children. (CallIoctl (Name c) b, None) \<in> set tc) \<and>
                   (\<forall>cn\<in>set (map fst (clones_Value (prop_Clones props))).
                      \<exists>u v nm. tk = u @ (CallList cn [''all'' \<mapsto> True] False 0, None) # v \<and>
                                (CallIoctl nm b, None) \<in> set v)))) \<and>
     (\<forall>e1 s1. Children N d 1 s = (Inl e1, s1) \<longrightarrow> r = Some e1 \<and> s' = s1) \<and>
     (\<forall>pre c post s1 s2 e1 s3.
        Children N d 1 s = (Inr (pre @ c # post), s1) \<and>
        forEach (Destroy n N opts) pre s1 = Some (None, s2) \<and>
        Destroy n N opts c s2 = Some (Some e1, s3)
        \<longrightarrow> r = Some e1 \<and> s' = s3) \<and>
     (\<forall>children s1 s2 raw props pre cn post s3.
        Children N d 1 s = (Inr children, s1) \<and>
        forEach (Destroy n N opts) children s1 = Some (None, s2) \<and>
        ds d = Some raw \<and> ds_Properties raw = Some props \<and>
        map fst (clones_Value (prop_Clones props)) = pre @ cn # post \<and>
        forEach (destroyClone (Destroy n N opts) N) pre s2 = Some (None, s3)
        \<longrightarrow> (\<forall>e1 s4. GetDataset N cn s3 = (Inl e1, s4) \<longrightarrow> r = Some e1 \<and> s' = s4) \<and>
            (\<forall>clone s4 e1 s5. GetDataset N cn s3 = (Inr clone, s4) \<and>
               Destroy n N opts clone s4 = Some (Some e1, s5) \<longrightarrow> r = Some e1 \<and> s' = s5)) \<and>
     (\<forall>children s1 s2 raw props s3.
        Children N d 1 s = (Inr children, s1) \<and>
        forEach (Destroy n N opts) children s1 = Some (None, s2) \<and>
        ds d = Some raw \<and> ds_Properties raw = Some props \<and>
        forEach (destroyClone (Destroy n N opts) N) (map fst (clones_Value (prop_Clones props))) s2
          = Some (None, s3)
        \<longrightarrow> destroy N (Name d) (Defer opts) s3 = (r, s'))"
proof (intro conjI)
  from Destroy_first [OF assms(1,3)] obtain e t where
    t: "did s ((CallList (Name d) [''all'' \<mapsto> True] True 1, e) # t) r s'" by blast
  have "r = None \<longrightarrow>
          (\<exists>children s1 raw props b tc tk.
              Children N d 1 s = (Inr children, s1) \<and>
              ds d = Some raw \<and> ds_Properties raw = Some props \<and>
              nv_Encode N [''cmd'' \<mapsto> IString ''zfs_destroy'', ''version'' \<mapsto> IUint64 0,
                           ''defer'' \<mapsto> IBool (Defer opts)] = Inr b \<and>
              t = tc @ tk @ [(CallIoctl (Name d) b, None)] \<and>
              (\<forall>c\<in>set children. (CallIoctl (Name c) b, None) \<in> set tc) \<and>
              (\<forall>cn\<in>set (map fst (clones_Value (prop_Clones props))).
                 \<exists>u v nm. tk = u @ (CallList cn [''all'' \<mapsto> True] False 0, None) # v \<and>
                           (CallIoctl nm b, None) \<in> set v))"
  proof
    assume "r = None"
    with assms(3) have "Destroy (Suc n) N opts d s = Some (None, s')" by simp
    from Destroy_success_order [OF assms(1,2) this] obtain children s1 raw props b tc tk where
      o: "Children N d 1 s = (Inr children, s1)" "ds d = Some raw" "ds_Properties raw = Some props"
         "nv_Encode N [''cmd'' \<mapsto> IString ''zfs_destroy'', ''version'' \<mapsto> IUint64 0,
                       ''defer'' \<mapsto> IBool (Defer opts)] = Inr b"
         "trace s' = trace s @ (CallList (Name d) [''all'' \<mapsto> True] True 1, None)
                               # tc @ tk @ [(CallIoctl (Name d) b, None)]"
         "\<forall>c\<in>set children. (CallIoctl (Name c) b, None) \<in> set tc"
         "\<forall>cn\<in>set (map fst (clones_Value (prop_Clones props))).
            \<exists>u v nm. tk = u @ (CallList cn [''all'' \<mapsto> True] False 0, None) # v \<and>
                      (CallIoctl nm b, None) \<in> set v"
      by blast
    from did_cancel [OF t o(5)] have "t = tc @ tk @ [(CallIoctl (Name d) b, None)]" by simp
    with o(1-4,6,7) show "\<exists>children s1 raw props b tc tk.
              Children N d 1 s = (Inr children, s1) \<and>
              ds d = Some raw \<and> ds_Properties raw = Some props \<and>
              nv_Encode N [''cmd'' \<mapsto> IString ''zfs_destroy'', ''version'' \<mapsto> IUint64 0,
                           ''defer'' \<mapsto> IBool (Defer opts)] = Inr b \<and>
              t = tc @ tk @ [(CallIoctl (Name d) b, None)] \<and>
              (\<forall>c\<in>set children. (CallIoctl (Name c) b, None) \<in> set tc) \<and>
              (\<forall>cn\<in>set (map fst (clones_Value (prop_Clones props))).
                 \<exists>u v nm. tk = u @ (CallList cn [''all'' \<mapsto> True] False 0, None) # v \<and>
                           (CallIoctl nm b, None) \<in> set v)" by blast
  qed
  with t show "\<exists>e t. trace s' = trace s @ (CallList (Name d) [''all'' \<mapsto> True] True 1, e) # t \<and>
            fail_fast r ((CallList (Name d) [''all'' \<mapsto> True] True 1, e) # t) \<and>
            list_all (\<lambda>entry. benign (fst entry)) t \<and>
            (r = None \<longrightarrow>
               (\<exists>children s1 raw props b tc tk.
                   Children N d 1 s = (Inr children, s1) \<and>
                   ds d = Some raw \<and> ds_Properties raw = Some props \<and>
                   nv_Encode N [''cmd'' \<mapsto> IString ''zfs_destroy'', ''version'' \<mapsto> IUint64 0,
                                ''defer'' \<mapsto> IBool (Defer opts)] = Inr b \<and>
                   t = tc @ tk @ [(CallIoctl (Name d) b, None)] \<and>
                   (\<forall>c\<in>set children. (CallIoctl (Name c) b, None) \<in> set tc) \<and>
                   (\<forall>cn\<in>set (map fst (clones_Value (prop_Clones props))).
                      \<exists>u v nm. tk = u @ (CallList cn [''all'' \<mapsto> True] False 0, None) # v \<and>
                                (CallIoctl nm b, None) \<in> set v)))"
    unfolding did_def by (intro exI [of _ e] exI [of _ t]) simp
next
  show "\<forall>e1 s1. Children N d 1 s = (Inl e1, s1) \<longrightarrow> r = Some e1 \<and> s' = s1"
    using Destroy_stops_listing [OF assms(1,3)] by blast
next
  show "\<forall>pre c post s1 s2 e1 s3.
        Children N d 1 s = (Inr (pre @ c # post), s1) \<and>
        forEach (Destroy n N opts) pre s1 = Some (None, s2) \<and>
        Destroy n N opts c s2 = Some (Some e1, s3)
        \<longrightarrow> r = Some e1 \<and> s' = s3"
    using Destroy_stops_child [OF assms(1,3)] by blast
next
  show "\<forall>children s1 s2 raw props pre cn post s3.
        Children N d 1 s = (Inr children, s1) \<and>
        forEach (Destroy n N opts) children s1 = Some (None, s2) \<and>
        ds d = Some raw \<and> ds_Properties raw = Some props \<and>
        map fst (clones_Value (prop_Clones props)) = pre @ cn # post \<and>
        forEach (destroyClone (Destroy n N opts) N) pre s2 = Some (None, s3)
        \<longrightarrow> (\<forall>e1 s4. GetDataset N cn s3 = (Inl e1, s4) \<longrightarrow> r = Some e1 \<and> s' = s4) \<and>
            (\<forall>clone s4 e1 s5. GetDataset N cn s3 = (Inr clone, s4) \<and>
               Destroy n N opts clone s4 = Some (Some e1, s5) \<longrightarrow> r = Some e1 \<and> s' = s5)"
  proof (intro allI impI conjI; elim conjE)
    fix children s1 s2 raw props pre cn post s3 e1 s4
    assume "Children N d 1 s = (Inr children, s1)"
      "forEach (Destroy n N opts) children s1 = Some (None, s2)"
      "ds d = Some raw" "ds_Properties raw = Some props"
      "map fst (clones_Value (prop_Clones props)) = pre @ cn # post"
      "forEach (destroyClone (Destroy n N opts) N) pre s2 = Some (None, s3)"
      "GetDataset N cn s3 = (Inl e1, s4)"
    then show "r = Some e1" "s' = s4"
      using Destroy_stops_fetch [OF assms] by simp_all
  next
    fix children s1 s2 raw props pre cn post s3 clone s4 e1 s5
    assume "Children N d 1 s = (Inr children, s1)"
      "forEach (Destroy n N opts) children s1 = Some (None, s2)"
      "ds d = Some raw" "ds_Properties raw = Some props"
      "map fst (clones_Value (prop_Clones props)) = pre @ cn # post"
      "forEach (destroyClone (Destroy n N opts) N) pre s2 = Some (None, s3)"
      "GetDataset N cn s3 = (Inr clone, s4)"
      "Destroy n N opts clone s4 = Some (Some e1, s5)"
    then show "r = Some e1" "s' = s5"
      using Destroy_stops_clone [OF assms] by simp_all
  qed
next
  show "\<forall>children s1 s2 raw props s3.
        Children N d 1 s = (Inr children, s1) \<and>
        forEach (Destroy n N opts) children s1 = Some (None, s2) \<and>
        ds d = Some raw \<and> ds_Properties raw = Some props \<and>
        forEach (destroyClone (Destroy n N opts) N) (map fst (clones_Value (prop_Clones props))) s2
          = Some (None, s3)
        \<longrightarrow> destroy N (Name d) (Defer opts) s3 = (r, s')"
    using Destroy_own_last [OF assms] by blast
qed

text \<open>
  The example of the specification: \<^verbatim>\<open>pool/a\<close> with child \<^verbatim>\<open>pool/a/b\<close> and clone
  \<^verbatim>\<open>pool/c\<close>. Depth 2 suffices; \<^verbatim>\<open>pool/a/b\<close> is destroyed before \<^verbatim>\<open>pool/c\<close> is fetched and
  destroyed, and \<^verbatim>\<open>pool/a\<close> goes last. When the kernel refuses to destroy \<^verbatim>\<open>pool/a/b\<close>,
  the call returns that error after three calls and all three datasets still exist.
\<close>

theorem Destroy_recursive_order_witness:
  "Recursive demo_opts \<and> RecursiveClones demo_opts \<and>
   Destroy (Suc (Suc 0)) demo demo_opts (demo_dataset ''pool/a'')
       (demo_state [''pool/a'', ''pool/a/b'', ''pool/c''] [])
     = Some (None,
         \<lparr> world = ([], []),
           trace = [(CallList ''pool/a'' [''all'' \<mapsto> True] True 1, None),
                    (CallList ''pool/a/b'' [''all'' \<mapsto> True] True 1, None),
                    (CallIoctl ''pool/a/b'' [0], None),
                    (CallList ''pool/c'' [''all'' \<mapsto> True] False 0, None),
                    (CallList ''pool/c'' [''all'' \<mapsto> True] True 1, None),
                    (CallIoctl ''pool/c'' [0], None),
                    (CallIoctl ''pool/a'' [0], None)],
           heap = (\<lambda>a. Map.empty) \<rparr>) \<and>
   (\<exists>tc tk.
      [(CallList ''pool/a/b'' [''all'' \<mapsto> True] True 1, None),
       (CallIoctl ''pool/a/b'' [0], None),
       (CallList ''pool/c'' [''all'' \<mapsto> True] False 0, None),
       (CallList ''pool/c'' [''all'' \<mapsto> True] True 1, None),
       (CallIoctl ''pool/c'' [0], None),
       (CallIoctl ''pool/a'' [0], None)]
        = tc @ tk @ [(CallIoctl ''pool/a'' [0], None) :: nat call \<times> error option] \<and>
      (CallIoctl ''pool/a/b'' [0], None) \<in> set tc \<and>
      (\<exists>u v nm. tk = u @ (CallList ''pool/c'' [''all'' \<mapsto> True] False 0, None) # v \<and>
                 (CallIoctl nm [0], None) \<in> set v)) \<and>
   Destroy (Suc (Suc 0)) demo demo_opts (demo_dataset ''pool/a'')
       (demo_state [''pool/a'', ''pool/a/b'', ''pool/c''] [''pool/a/b''])
     = Some (Some (Errno 16),
         \<lparr> world = ([''pool/a'', ''pool/a/b'', ''pool/c''], [''pool/a/b'']),
           trace = [(CallList ''pool/a'' [''all'' \<mapsto> True] True 1, None),
                    (CallList ''pool/a/b'' [''all'' \<mapsto> True] True 1, None),
                    (CallIoctl ''pool/a/b'' [0], Some (Errno 16))],
           heap = (\<lambda>a. Map.empty) \<rparr>)"
proof -
  let ?d = "demo_dataset ''pool/a''"
  let ?s = "demo_state [''pool/a'', ''pool/a/b'', ''pool/c''] []"
  let ?s' = "\<lparr> world = ([], []),
           trace = [(CallList ''pool/a'' [''all'' \<mapsto> True] True 1, None),
                    (CallList ''pool/a/b'' [''all'' \<mapsto> True] True 1, None),
                    (CallIoctl ''pool/a/b'' [0], None),
                    (CallList ''pool/c'' [''all'' \<mapsto> True] False 0, None),
                    (CallList ''pool/c'' [''all'' \<mapsto> True] True 1, None),
                    (CallIoctl ''pool/c'' [0], None),
                    (CallIoctl ''pool/a'' [0], None)],
           heap = (\<lambda>a. Map.empty) \<rparr> :: (demo_world, nat) state"
  have h1: "Recursive demo_opts" and h2: "RecursiveClones demo_opts"
    by (simp_all add: demo_opts_def)
  have h3: "Destroy (Suc (Suc 0)) demo demo_opts ?d ?s = Some (None, ?s')"
    by (simp add: example_defs)
  have busy: "Destroy (Suc (Suc 0)) demo demo_opts ?d
       (demo_state [''pool/a'', ''pool/a/b'', ''pool/c''] [''pool/a/b''])
     = Some (Some (Errno 16),
         \<lparr> world = ([''pool/a'', ''pool/a/b'', ''pool/c''], [''pool/a/b'']),
           trace = [(CallList ''pool/a'' [''all'' \<mapsto> True] True 1, None),
                    (CallList ''pool/a/b'' [''all'' \<mapsto> True] True 1, None),
                    (CallIoctl ''pool/a/b'' [0], Some (Errno 16))],
           heap = (\<lambda>a. Map.empty) \<rparr>)"
    by (simp add: example_defs)
  from Destroy_recursive_order [OF h1 h2 h3, THEN conjunct1]
  obtain e t where
    tr: "trace ?s' = trace ?s @ (CallList (Name ?d) [''all'' \<mapsto> True] True 1, e) # t" and
    imp: "(None :: error option) = None \<longrightarrow> (\<exists>children s1 raw props b tc tk.
           Children demo ?d 1 ?s = (Inr children, s1) \<and>
           ds ?d = Some raw \<and> ds_Properties raw = Some props \<and>
           nv_Encode demo [''cmd'' \<mapsto> IString ''zfs_destroy'', ''version'' \<mapsto> IUint64 0,
                           ''defer'' \<mapsto> IBool (Defer demo_opts)] = Inr b \<and>
           t = tc @ tk @ [(CallIoctl (Name ?d) b, None)] \<and>
           (\<forall>c\<in>set children. (CallIoctl (Name c) b, None) \<in> set tc) \<and>
           (\<forall>cn\<in>set (map fst (clones_Value (prop_Clones props))).
              \<exists>u v nm. tk = u @ (CallList cn [''all'' \<mapsto> True] False 0, None) # v \<and>
                        (CallIoctl nm b, None) \<in> set v))"
    by (elim exE conjE) (rule that; assumption)
  from imp [THEN mp, OF refl] obtain children s1 raw props b tc tk where
    ch: "Children demo ?d 1 ?s = (Inr children, s1)" and
    raw: "ds ?d = Some raw" and props: "ds_Properties raw = Some props" and
    enc: "nv_Encode demo [''cmd'' \<mapsto> IString ''zfs_destroy'', ''version'' \<mapsto> IUint64 0,
                          ''defer'' \<mapsto> IBool (Defer demo_opts)] = Inr b" and
    t: "t = tc @ tk @ [(CallIoctl (Name ?d) b, None)]" and
    qc: "\<forall>c\<in>set children. (CallIoctl (Name c) b, None) \<in> set tc" and
    qk: "\<forall>cn\<in>set (map fst (clones_Value (prop_Clones props))).
           \<exists>u v nm. tk = u @ (CallList cn [''all'' \<mapsto> True] False 0, None) # v \<and>
                     (CallIoctl nm b, None) \<in> set v"
    by (elim exE conjE) (rule that; assumption)
  have nm: "Name ?d = ''pool/a''" by (simp add: example_defs)
  from enc have b: "b = [0]" by (simp add: demo_def demo_opts_def)
  have "fst (Children demo ?d 1 ?s) = Inr [demo_dataset ''pool/a/b'']"
    by (simp add: example_defs)
  with ch have children: "children = [demo_dataset ''pool/a/b'']" by simp
  have nb: "Name (demo_dataset ''pool/a/b'') = ''pool/a/b''" by (simp add: example_defs)
  from raw have "raw = demo_raw ''pool/a''" by (simp add: example_defs)
  with props have "map fst (clones_Value (prop_Clones props)) = [''pool/c'']"
    by (auto simp: demo_raw_def)
  with qk b have k: "\<exists>u v nm. tk = u @ (CallList ''pool/c'' [''all'' \<mapsto> True] False 0, None) # v \<and>
                     (CallIoctl nm [0], None) \<in> set v" by simp
  from qc children nb b have c: "(CallIoctl ''pool/a/b'' [0], None) \<in> set tc" by simp
  from tr t nm b have eq:
    "[(CallList ''pool/a/b'' [''all'' \<mapsto> True] True 1, None),
       (CallIoctl ''pool/a/b'' [0], None),
       (CallList ''pool/c'' [''all'' \<mapsto> True] False 0, None),
       (CallList ''pool/c'' [''all'' \<mapsto> True] True 1, None),
       (CallIoctl ''pool/c'' [0], None),
       (CallIoctl ''pool/a'' [0], None)] = tc @ tk @ [(CallIoctl ''pool/a'' [0], None)]"
    by (simp add: demo_state_def)
  show ?thesis
    using h1 h2 h3 busy eq c k
    by - (intro conjI;
          (assumption | (rule exI [of _ tc], rule exI [of _ tk], intro conjI; assumption)))
qed

end
